theory Spec2Isabelle
  imports Complex_Main "HOL-Library.Signed_Division"
begin

section \<open>Data model\<close>

text \<open>
  The TypeScript sources declare \<^verbatim>\<open>type BlockShape = number[][]\<close> and
  \<^verbatim>\<open>type Grid = number[][]\<close>. A JavaScript array read past its end yields
  \<^verbatim>\<open>undefined\<close> instead of failing, and such a value can be stored again, so a
  cell is either a number or \<^verbatim>\<open>undefined\<close>: \<open>Some n\<close> is the number \<open>n\<close> and
  \<open>None\<close> is \<^verbatim>\<open>undefined\<close>. Cell values and offsets are integers (the sources only
  store the integers 0 to 7 and integral offsets), modelled by the unbounded \<open>int\<close>.
\<close>

type_synonym cell = "int option"
type_synonym BlockShape = "cell list list"
type_synonym Grid = "cell list list"

text \<open>
  Failures of the source: \<open>TypeError\<close> is what JavaScript raises when a property of
  \<^verbatim>\<open>undefined\<close> is read or written (\<^verbatim>\<open>grid[y][x]\<close> where \<^verbatim>\<open>grid[y]\<close> does not exist);
  \<open>InvalidTetrominoIndex i\<close> is the \<^verbatim>\<open>Error("Invalid tetromino index: i. ...")\<close> thrown by
  \<^verbatim>\<open>getTetrominoByIndex\<close>.
\<close>

datatype js_error = TypeError | InvalidTetrominoIndex int

definition GRID_WIDTH :: nat where
  "GRID_WIDTH = 10"

definition GRID_HEIGHT :: nat where
  "GRID_HEIGHT = 20"

text \<open>\<^verbatim>\<open>xs[i]\<close> for an index \<open>i \<ge> 0\<close>: \<^verbatim>\<open>undefined\<close> past the end.\<close>

definition js_get :: "cell list \<Rightarrow> nat \<Rightarrow> cell" where
  "js_get xs i = (if i < length xs then xs ! i else None)"

text \<open>\<^verbatim>\<open>xs[i] = v\<close> for an index \<open>i \<ge> 0\<close>: a write past the end extends the array,
  and the cells in between read as \<^verbatim>\<open>undefined\<close>.\<close>

definition js_set :: "cell list \<Rightarrow> nat \<Rightarrow> cell \<Rightarrow> cell list" where
  "js_set xs i v =
     (if i < length xs then xs[i := v]
      else xs @ replicate (i - length xs) None @ [v])"

text \<open>
  \<^verbatim>\<open>m[r][c] = v\<close> on an array of arrays whose row \<open>r\<close> exists (the callers below check
  that, or write inside a matrix they have just allocated).
\<close>

definition writeCell :: "cell list list \<Rightarrow> nat \<Rightarrow> nat \<Rightarrow> cell \<Rightarrow> cell list list" where
  "writeCell m r c v = m[r := js_set (m ! r) c v]"

text \<open>
  The board of the game: 20 rows of 10 cells each. A grid is a value here (a list of
  rows): its rows are taken to be distinct array objects, as every grid the sources
  build has them.
\<close>

definition isBoard :: "Grid \<Rightarrow> bool" where
  "isBoard grid \<longleftrightarrow>
     length grid = GRID_HEIGHT \<and> list_all (\<lambda>row. length row = GRID_WIDTH) grid"

section \<open>Collision: \<^verbatim>\<open>isPositionValid\<close> (collision.ts)\<close>

text \<open>
  The inner loop over \<^verbatim>\<open>shapeX\<close>, run on the cells of \<^verbatim>\<open>shape[shapeY]\<close> that are still
  to be visited. \<open>Inr False\<close> is the \<^verbatim>\<open>return false\<close> of the source, \<open>Inr True\<close> means the
  loop ran to its end. The grid is read only after both bounds checks, so the indices
  are natural numbers there.
\<close>

fun checkCells :: "Grid \<Rightarrow> cell list \<Rightarrow> int \<Rightarrow> int \<Rightarrow> nat \<Rightarrow> nat \<Rightarrow> js_error + bool" where
  "checkCells grid [] offsetX offsetY shapeY shapeX = Inr True"
| "checkCells grid (cellValue # cells) offsetX offsetY shapeY shapeX =
     (if cellValue = Some 0 then checkCells grid cells offsetX offsetY shapeY (Suc shapeX)
      else
        let gridX = offsetX + int shapeX;
            gridY = offsetY + int shapeY
        in if gridX < 0 \<or> gridX \<ge> int GRID_WIDTH then Inr False
           else if gridY < 0 \<or> gridY \<ge> int GRID_HEIGHT then Inr False
           else if \<not> nat gridY < length grid then Inl TypeError
           else if js_get (grid ! nat gridY) (nat gridX) \<noteq> Some 0 then Inr False
           else checkCells grid cells offsetX offsetY shapeY (Suc shapeX))"

text \<open>The outer loop over \<^verbatim>\<open>shapeY\<close>, on the rows still to be visited.\<close>

fun checkRows :: "Grid \<Rightarrow> BlockShape \<Rightarrow> int \<Rightarrow> int \<Rightarrow> nat \<Rightarrow> js_error + bool" where
  "checkRows grid [] offsetX offsetY shapeY = Inr True"
| "checkRows grid (row # rows) offsetX offsetY shapeY =
     (case checkCells grid row offsetX offsetY shapeY 0 of
        Inl e \<Rightarrow> Inl e
      | Inr False \<Rightarrow> Inr False
      | Inr True \<Rightarrow> checkRows grid rows offsetX offsetY (Suc shapeY))"

definition isPositionValid :: "Grid \<Rightarrow> BlockShape \<Rightarrow> int \<Rightarrow> int \<Rightarrow> js_error + bool" where
  "isPositionValid grid shape offsetX offsetY = checkRows grid shape offsetX offsetY 0"

text \<open>
  The property the specification gives for one occupied cell of the shape: its absolute
  column and row are on the board and the board is empty there.
\<close>

definition cellFits :: "Grid \<Rightarrow> int \<Rightarrow> int \<Rightarrow> bool" where
  "cellFits grid gridX gridY \<longleftrightarrow>
     0 \<le> gridX \<and> gridX < int GRID_WIDTH \<and> 0 \<le> gridY \<and> gridY < int GRID_HEIGHT \<and>
     js_get (grid ! nat gridY) (nat gridX) = Some 0"

text \<open>An occupied cell of a shape: an existing cell whose value is not 0.\<close>

definition occupied :: "BlockShape \<Rightarrow> nat \<Rightarrow> nat \<Rightarrow> bool" where
  "occupied shape shapeY shapeX \<longleftrightarrow>
     shapeY < length shape \<and> shapeX < length (shape ! shapeY) \<and> shape ! shapeY ! shapeX \<noteq> Some 0"

definition outOfBounds :: "int \<Rightarrow> int \<Rightarrow> bool" where
  "outOfBounds gridX gridY \<longleftrightarrow>
     gridX < 0 \<or> gridX \<ge> int GRID_WIDTH \<or> gridY < 0 \<or> gridY \<ge> int GRID_HEIGHT"

definition emptyRow :: "cell list" where
  "emptyRow = replicate GRID_WIDTH (Some 0)"

definition emptyBoard :: Grid where
  "emptyBoard = replicate GRID_HEIGHT emptyRow"

section \<open>Rotation (rotation module and tetromino module)\<close>

text \<open>The string literal type \<^verbatim>\<open>"clockwise" | "counterClockwise"\<close>.\<close>

datatype direction = clockwise | counterClockwise

text \<open>
  \<^verbatim>\<open>rotateShape\<close>: \<open>rotated\<close> starts as the \<open>n \<times> n\<close> matrix of zeros; the two nested
  loops over \<open>i\<close> and \<open>j\<close> write \<^verbatim>\<open>rotated[j][n - 1 - i] = shape[i][j]\<close> (clockwise) or
  \<^verbatim>\<open>rotated[n - 1 - j][i] = shape[i][j]\<close> (counter-clockwise). The row \<^verbatim>\<open>shape[i]\<close> exists
  for \<open>i < n\<close>; its cell \<open>j\<close> is \<^verbatim>\<open>undefined\<close> when the row is shorter than \<open>n\<close>.
\<close>

definition rotateShape :: "BlockShape \<Rightarrow> direction \<Rightarrow> BlockShape" where
  "rotateShape shape dir =
     (let n = length shape;
          rotated = replicate n (replicate n (Some 0))
      in if dir = clockwise then
           fold (\<lambda>i. fold (\<lambda>j rotated.
                   writeCell rotated j (n - 1 - i) (js_get (shape ! i) j)) [0..<n])
             [0..<n] rotated
         else
           fold (\<lambda>i. fold (\<lambda>j rotated.
                   writeCell rotated (n - 1 - j) i (js_get (shape ! i) j)) [0..<n])
             [0..<n] rotated)"

text \<open>\<^verbatim>\<open>rotateTetromino\<close> of the tetromino module: the clockwise loop alone.\<close>

definition rotateTetromino :: "BlockShape \<Rightarrow> BlockShape" where
  "rotateTetromino shape =
     (let n = length shape;
          rotated = replicate n (replicate n (Some 0))
      in fold (\<lambda>i. fold (\<lambda>j rotated.
                writeCell rotated j (n - 1 - i) (js_get (shape ! i) j)) [0..<n])
           [0..<n] rotated)"

text \<open>A square shape: as many cells in every row as there are rows.\<close>

definition isSquare :: "BlockShape \<Rightarrow> bool" where
  "isSquare shape \<longleftrightarrow> list_all (\<lambda>row. length row = length shape) shape"

text \<open>The number of occupied cells of a shape.\<close>

definition occupiedCount :: "BlockShape \<Rightarrow> nat" where
  "occupiedCount shape = length (filter (\<lambda>cellValue. cellValue \<noteq> Some 0) (concat shape))"

text \<open>The object \<^verbatim>\<open>{ rotated, x, y, valid }\<close> that \<^verbatim>\<open>attemptRotation\<close> returns.\<close>

record RotationResult =
  rotated :: BlockShape
  x :: int
  y :: int
  valid :: bool

text \<open>
  The loop of \<^verbatim>\<open>attemptRotation\<close> over \<^verbatim>\<open>wallKickOffsets\<close>, on the offsets still to be
  tried; the statement after the loop (all attempts failed) is its base case.
\<close>

fun wallKickLoop ::
  "Grid \<Rightarrow> BlockShape \<Rightarrow> BlockShape \<Rightarrow> int \<Rightarrow> int \<Rightarrow> int list \<Rightarrow> js_error + RotationResult" where
  "wallKickLoop grid shape rotated' offsetX offsetY [] =
     Inr \<lparr>rotated = shape, x = offsetX, y = offsetY, valid = False\<rparr>"
| "wallKickLoop grid shape rotated' offsetX offsetY (offset # offsets) =
     (let newX = offsetX + offset
      in case isPositionValid grid rotated' newX offsetY of
           Inl e \<Rightarrow> Inl e
         | Inr True \<Rightarrow> Inr \<lparr>rotated = rotated', x = newX, y = offsetY, valid = True\<rparr>
         | Inr False \<Rightarrow> wallKickLoop grid shape rotated' offsetX offsetY offsets)"

definition wallKickOffsets :: "int list" where
  "wallKickOffsets = [1, -1, 2, -2]"

definition attemptRotation ::
  "Grid \<Rightarrow> BlockShape \<Rightarrow> int \<Rightarrow> int \<Rightarrow> direction \<Rightarrow> js_error + RotationResult" where
  "attemptRotation grid shape offsetX offsetY dir =
     (let rotated' = rotateShape shape dir
      in case isPositionValid grid rotated' offsetX offsetY of
           Inl e \<Rightarrow> Inl e
         | Inr True \<Rightarrow> Inr \<lparr>rotated = rotated', x = offsetX, y = offsetY, valid = True\<rparr>
         | Inr False \<Rightarrow> wallKickLoop grid shape rotated' offsetX offsetY wallKickOffsets)"

subsection \<open>The SRS variant\<close>

text \<open>
  \<^verbatim>\<open>SRS_WALL_KICK_DATA\<close> of the rotation module: for the pieces other than I
  (\<^verbatim>\<open>standard\<close>) and for the I piece, the candidates \<^verbatim>\<open>[kickX, kickY]\<close> of each
  transition, keyed by the transition's label.
\<close>

definition SRS_WALL_KICK_DATA_standard :: "(string \<times> (int \<times> int) list) list" where
  "SRS_WALL_KICK_DATA_standard =
     [(''0->R'', [(0, 0), (-1, 0), (-1, 1), (0, -2), (-1, -2)]),
      (''R->0'', [(0, 0), (1, 0), (1, -1), (0, 2), (1, 2)]),
      (''R->2'', [(0, 0), (1, 0), (1, -1), (0, 2), (1, 2)]),
      (''2->R'', [(0, 0), (-1, 0), (-1, 1), (0, -2), (-1, -2)]),
      (''2->L'', [(0, 0), (1, 0), (1, 1), (0, -2), (1, -2)]),
      (''L->2'', [(0, 0), (-1, 0), (-1, -1), (0, 2), (-1, 2)]),
      (''L->0'', [(0, 0), (-1, 0), (-1, -1), (0, 2), (-1, 2)]),
      (''0->L'', [(0, 0), (1, 0), (1, 1), (0, -2), (1, -2)])]"

definition SRS_WALL_KICK_DATA_I :: "(string \<times> (int \<times> int) list) list" where
  "SRS_WALL_KICK_DATA_I =
     [(''0->R'', [(0, 0), (-2, 0), (1, 0), (-2, -1), (1, 2)]),
      (''R->0'', [(0, 0), (2, 0), (-1, 0), (2, 1), (-1, -2)]),
      (''R->2'', [(0, 0), (-1, 0), (2, 0), (-1, 2), (2, -1)]),
      (''2->R'', [(0, 0), (1, 0), (-2, 0), (1, -2), (-2, 1)]),
      (''2->L'', [(0, 0), (2, 0), (-1, 0), (2, 1), (-1, -2)]),
      (''L->2'', [(0, 0), (-2, 0), (1, 0), (-2, -1), (1, 2)]),
      (''L->0'', [(0, 0), (1, 0), (-2, 0), (1, -2), (-2, 1)]),
      (''0->L'', [(0, 0), (-1, 0), (2, 0), (-1, 2), (2, -1)])]"

definition rotationStates :: "string list" where
  "rotationStates = [''0'', ''R'', ''2'', ''L'']"

text \<open>
  \<^verbatim>\<open>rotationStates[k]\<close> inside a template literal: an index outside the array reads
  \<^verbatim>\<open>undefined\<close>, which the template prints as the text "undefined".
\<close>

definition stateLabel :: "int \<Rightarrow> string" where
  "stateLabel k =
     (if 0 \<le> k \<and> k < int (length rotationStates) then rotationStates ! nat k
      else ''undefined'')"

text \<open>
  The new rotation state; JavaScript's \<^verbatim>\<open>%\<close> is the remainder of the truncated division
  (the sign of the dividend), which is \<open>smod\<close>.
\<close>

definition newRotationOf :: "direction \<Rightarrow> int \<Rightarrow> int" where
  "newRotationOf dir currentRotation =
     (if dir = clockwise then (currentRotation + 1) smod 4 else (currentRotation + 3) smod 4)"

definition transitionKey :: "direction \<Rightarrow> int \<Rightarrow> string" where
  "transitionKey dir currentRotation =
     stateLabel currentRotation @ ''->'' @ stateLabel (newRotationOf dir currentRotation)"

definition kickData :: "bool \<Rightarrow> (string \<times> (int \<times> int) list) list" where
  "kickData isIPiece = (if isIPiece then SRS_WALL_KICK_DATA_I else SRS_WALL_KICK_DATA_standard)"

text \<open>\<^verbatim>\<open>kickData[transitionKey] || [[0, 0]]\<close>: an array is never falsy, so the
  alternative is taken exactly when the table has no entry for the key.\<close>

definition kickOffsets :: "bool \<Rightarrow> direction \<Rightarrow> int \<Rightarrow> (int \<times> int) list" where
  "kickOffsets isIPiece dir currentRotation =
     (case map_of (kickData isIPiece) (transitionKey dir currentRotation) of
        Some offsets \<Rightarrow> offsets
      | None \<Rightarrow> [(0, 0)])"

record RotationResultSRS = RotationResult +
  newRotation :: int

fun srsKickLoop ::
  "Grid \<Rightarrow> BlockShape \<Rightarrow> BlockShape \<Rightarrow> int \<Rightarrow> int \<Rightarrow> int \<Rightarrow> int \<Rightarrow> (int \<times> int) list \<Rightarrow>
   js_error + RotationResultSRS" where
  "srsKickLoop grid shape rotated' offsetX offsetY currentRotation newRotation' [] =
     Inr \<lparr>rotated = shape, x = offsetX, y = offsetY, valid = False,
          newRotation = currentRotation\<rparr>"
| "srsKickLoop grid shape rotated' offsetX offsetY currentRotation newRotation'
     ((kickX, kickY) # offsets) =
     (let testX = offsetX + kickX;
          testY = offsetY + kickY
      in case isPositionValid grid rotated' testX testY of
           Inl e \<Rightarrow> Inl e
         | Inr True \<Rightarrow> Inr \<lparr>rotated = rotated', x = testX, y = testY, valid = True,
                            newRotation = newRotation'\<rparr>
         | Inr False \<Rightarrow>
             srsKickLoop grid shape rotated' offsetX offsetY currentRotation newRotation' offsets)"

definition attemptRotationSRS ::
  "Grid \<Rightarrow> BlockShape \<Rightarrow> int \<Rightarrow> int \<Rightarrow> direction \<Rightarrow> int \<Rightarrow> bool \<Rightarrow>
   js_error + RotationResultSRS" where
  "attemptRotationSRS grid shape offsetX offsetY dir currentRotation isIPiece =
     srsKickLoop grid shape (rotateShape shape dir) offsetX offsetY currentRotation
       (newRotationOf dir currentRotation) (kickOffsets isIPiece dir currentRotation)"

section \<open>The piece catalog (tetromino module)\<close>

definition I_PIECE :: BlockShape where
  "I_PIECE =
     [[Some 0, Some 0, Some 0, Some 0],
      [Some 1, Some 1, Some 1, Some 1],
      [Some 0, Some 0, Some 0, Some 0],
      [Some 0, Some 0, Some 0, Some 0]]"

definition O_PIECE :: BlockShape where
  "O_PIECE =
     [[Some 0, Some 0, Some 0, Some 0],
      [Some 0, Some 2, Some 2, Some 0],
      [Some 0, Some 2, Some 2, Some 0],
      [Some 0, Some 0, Some 0, Some 0]]"

definition T_PIECE :: BlockShape where
  "T_PIECE =
     [[Some 0, Some 0, Some 0, Some 0],
      [Some 0, Some 3, Some 0, Some 0],
      [Some 3, Some 3, Some 3, Some 0],
      [Some 0, Some 0, Some 0, Some 0]]"

definition S_PIECE :: BlockShape where
  "S_PIECE =
     [[Some 0, Some 0, Some 0, Some 0],
      [Some 0, Some 4, Some 4, Some 0],
      [Some 4, Some 4, Some 0, Some 0],
      [Some 0, Some 0, Some 0, Some 0]]"

definition Z_PIECE :: BlockShape where
  "Z_PIECE =
     [[Some 0, Some 0, Some 0, Some 0],
      [Some 5, Some 5, Some 0, Some 0],
      [Some 0, Some 5, Some 5, Some 0],
      [Some 0, Some 0, Some 0, Some 0]]"

definition J_PIECE :: BlockShape where
  "J_PIECE =
     [[Some 0, Some 0, Some 0, Some 0],
      [Some 6, Some 0, Some 0, Some 0],
      [Some 6, Some 6, Some 6, Some 0],
      [Some 0, Some 0, Some 0, Some 0]]"

definition L_PIECE :: BlockShape where
  "L_PIECE =
     [[Some 0, Some 0, Some 0, Some 0],
      [Some 0, Some 0, Some 7, Some 0],
      [Some 7, Some 7, Some 7, Some 0],
      [Some 0, Some 0, Some 0, Some 0]]"

definition TETROMINOS :: "BlockShape list" where
  "TETROMINOS = [I_PIECE, O_PIECE, T_PIECE, S_PIECE, Z_PIECE, J_PIECE, L_PIECE]"

section \<open>Lock and line clear (lockAndClear.ts)\<close>

text \<open>\<^verbatim>\<open>grid[row].every((cell) => cell !== 0)\<close> on an existing row.\<close>

definition rowComplete :: "cell list \<Rightarrow> bool" where
  "rowComplete row \<longleftrightarrow> list_all (\<lambda>cell. cell \<noteq> Some 0) row"

text \<open>
  The loop of \<^verbatim>\<open>clearLines\<close>, from \<open>row = GRID_HEIGHT - 1\<close> down to 0. A complete row is
  removed (\<^verbatim>\<open>grid.splice(row, 1)\<close>), a new empty row is put in front
  (\<^verbatim>\<open>grid.unshift(emptyRow)\<close>) and \<^verbatim>\<open>row++\<close> undoes the loop's \<^verbatim>\<open>row--\<close>, so the same index is
  examined again. Reading \<^verbatim>\<open>grid[row].every\<close> where the grid has no such row raises a
  TypeError.
\<close>

function clearLinesLoop :: "Grid \<Rightarrow> int \<Rightarrow> nat \<Rightarrow> js_error + (nat \<times> Grid)" where
  "clearLinesLoop grid row clearedCount =
     (if row \<ge> 0 then
        if \<not> nat row < length grid then Inl TypeError
        else if rowComplete (grid ! nat row) then
          clearLinesLoop (emptyRow # (take (nat row) grid @ drop (Suc (nat row)) grid))
            row (clearedCount + 1)
        else clearLinesLoop grid (row - 1) clearedCount
      else Inr (clearedCount, grid))"
  by pat_completeness auto
termination
proof (relation "measures [\<lambda>(grid, row, clearedCount). length (filter rowComplete grid),
                           \<lambda>(grid, row, clearedCount). nat (row + 1)]")
  show "wf (measures [\<lambda>(grid, row, clearedCount). length (filter rowComplete grid),
                      \<lambda>(grid, row, clearedCount). nat (row + 1)])"
    by simp
next
  fix grid :: Grid and row :: int and clearedCount :: nat
  assume r: "0 \<le> row" "\<not> \<not> nat row < length grid" and c: "rowComplete (grid ! nat row)"
  have e: "\<not> rowComplete emptyRow"
    by (simp add: rowComplete_def emptyRow_def GRID_WIDTH_def list_all_iff)
  have "grid = take (nat row) grid @ grid ! nat row # drop (Suc (nat row)) grid"
    using r by (simp add: id_take_nth_drop)
  then have "length (filter rowComplete grid) =
             length (filter rowComplete (take (nat row) grid @ grid ! nat row # drop (Suc (nat row)) grid))"
    by simp
  then have "length (filter rowComplete (take (nat row) grid @ drop (Suc (nat row)) grid)) <
             length (filter rowComplete grid)"
    using c by simp
  then show "((emptyRow # take (nat row) grid @ drop (Suc (nat row)) grid, row, clearedCount + 1),
              (grid, row, clearedCount))
             \<in> measures [\<lambda>(grid, row, clearedCount). length (filter rowComplete grid),
                          \<lambda>(grid, row, clearedCount). nat (row + 1)]"
    using e by simp
next
  fix grid :: Grid and row :: int and clearedCount :: nat
  assume "0 \<le> row"
  then show "((grid, row - 1, clearedCount), (grid, row, clearedCount))
             \<in> measures [\<lambda>(grid, row, clearedCount). length (filter rowComplete grid),
                          \<lambda>(grid, row, clearedCount). nat (row + 1)]"
    by simp
qed

definition clearLines :: "Grid \<Rightarrow> js_error + (nat \<times> Grid)" where
  "clearLines grid = clearLinesLoop grid (int GRID_HEIGHT - 1) 0"

text \<open>
  \<^verbatim>\<open>clearLinesOptimized\<close>: the first loop collects the indices of the complete rows among
  the first 20 (a TypeError at the first missing row, before anything is written); with
  none, the grid is left as it is; otherwise the second loop copies the other rows of the
  first 20, the grid is emptied (\<^verbatim>\<open>grid.length = 0\<close>) and refilled with one empty row per
  complete row followed by the copies.
\<close>

definition clearLinesOptimized :: "Grid \<Rightarrow> js_error + (nat \<times> Grid)" where
  "clearLinesOptimized grid =
     (if length grid < GRID_HEIGHT then Inl TypeError
      else
        let completedRows = filter (\<lambda>row. rowComplete (grid ! row)) [0..<GRID_HEIGHT]
        in if length completedRows = 0 then Inr (0, grid)
           else
             let remainingRows =
                   map (\<lambda>row. grid ! row)
                     (filter (\<lambda>row. row \<notin> set completedRows) [0..<GRID_HEIGHT])
             in Inr (length completedRows,
                     replicate (length completedRows) emptyRow @ remainingRows))"

text \<open>
  The merge loops of \<^verbatim>\<open>lockPiece\<close>: an occupied cell of the shape is written into the grid
  when its absolute coordinates pass the bounds check, and skipped otherwise. The write
  \<^verbatim>\<open>grid[gridY][gridX] = cellValue\<close> raises a TypeError when the grid has no row
  \<open>gridY\<close>.
\<close>

fun mergeCells :: "Grid \<Rightarrow> cell list \<Rightarrow> int \<Rightarrow> int \<Rightarrow> nat \<Rightarrow> nat \<Rightarrow> js_error + Grid" where
  "mergeCells grid [] offsetX offsetY shapeY shapeX = Inr grid"
| "mergeCells grid (cellValue # cells) offsetX offsetY shapeY shapeX =
     (if cellValue \<noteq> Some 0 then
        let gridX = offsetX + int shapeX;
            gridY = offsetY + int shapeY
        in if gridY \<ge> 0 \<and> gridY < int GRID_HEIGHT \<and> gridX \<ge> 0 \<and> gridX < int GRID_WIDTH then
             if \<not> nat gridY < length grid then Inl TypeError
             else mergeCells (writeCell grid (nat gridY) (nat gridX) cellValue) cells
                    offsetX offsetY shapeY (Suc shapeX)
           else mergeCells grid cells offsetX offsetY shapeY (Suc shapeX)
      else mergeCells grid cells offsetX offsetY shapeY (Suc shapeX))"

fun mergeRows :: "Grid \<Rightarrow> BlockShape \<Rightarrow> int \<Rightarrow> int \<Rightarrow> nat \<Rightarrow> js_error + Grid" where
  "mergeRows grid [] offsetX offsetY shapeY = Inr grid"
| "mergeRows grid (row # rows) offsetX offsetY shapeY =
     (case mergeCells grid row offsetX offsetY shapeY 0 of
        Inl e \<Rightarrow> Inl e
      | Inr grid' \<Rightarrow> mergeRows grid' rows offsetX offsetY (Suc shapeY))"

text \<open>Step 1 of \<^verbatim>\<open>lockPiece\<close>: the grid after the merge.\<close>

definition mergePiece :: "Grid \<Rightarrow> BlockShape \<Rightarrow> int \<Rightarrow> int \<Rightarrow> js_error + Grid" where
  "mergePiece grid shape offsetX offsetY = mergeRows grid shape offsetX offsetY 0"

record LockResult =
  linesCleared :: nat

text \<open>\<^verbatim>\<open>lockPiece\<close>: the merge, then \<^verbatim>\<open>clearLines\<close> on the merged grid. The result is the
  returned object together with the grid as the call leaves it.\<close>

definition lockPiece :: "Grid \<Rightarrow> BlockShape \<Rightarrow> int \<Rightarrow> int \<Rightarrow> js_error + (LockResult \<times> Grid)" where
  "lockPiece grid shape offsetX offsetY =
     (case mergePiece grid shape offsetX offsetY of
        Inl e \<Rightarrow> Inl e
      | Inr merged \<Rightarrow>
          (case clearLines merged of
             Inl e \<Rightarrow> Inl e
           | Inr (clearedCount, grid') \<Rightarrow> Inr (\<lparr>linesCleared = clearedCount\<rparr>, grid')))"

section \<open>Score and level (scoreAndLevel.ts)\<close>

text \<open>
  \<^verbatim>\<open>ScoreConfig\<close> and the fields of \<^verbatim>\<open>ScoreManager\<close>. Scores, line counts and levels are
  integers, modelled by the unbounded \<open>int\<close> (JavaScript's 64-bit floating point is exact
  on the integers below \<open>2^53\<close>). The base drop interval is a double, which is a real
  number. \<^verbatim>\<open>scoreTable\<close> is a \<^verbatim>\<open>Record<number, number>\<close>: a partial map.
\<close>

record ScoreConfig =
  initialScore :: int
  scoreTable :: "int \<rightharpoonup> int"
  initialLevel :: int
  linesPerLevel :: int
  baseDropInterval :: real

record ScoreManager =
  config :: ScoreConfig
  score :: int
  level :: int
  totalLinesCleared :: int

text \<open>The constructor.\<close>

definition newScoreManager :: "ScoreConfig \<Rightarrow> ScoreManager" where
  "newScoreManager cfg =
     \<lparr>config = cfg, score = initialScore cfg, level = initialLevel cfg, totalLinesCleared = 0\<rparr>"

text \<open>
  The method \<^verbatim>\<open>ScoreManager.clearLines\<close> (named apart from \<^verbatim>\<open>clearLines\<close> of the grid).
  With \<open>linesPerLevel = 0\<close> the division yields \<^verbatim>\<open>Infinity\<close> or \<^verbatim>\<open>NaN\<close> and the level is
  no longer a number of this model: the result is \<open>None\<close> then.
\<close>

definition ScoreManager_clearLines :: "ScoreManager \<Rightarrow> int \<Rightarrow> ScoreManager option" where
  "ScoreManager_clearLines this count =
     (let score' = (case scoreTable (config this) count of
                      Some bonus \<Rightarrow> score this + bonus
                    | None \<Rightarrow> score this);
          totalLinesCleared' = totalLinesCleared this + count
      in if linesPerLevel (config this) = 0 then None
         else Some (this\<lparr>score := score',
                         totalLinesCleared := totalLinesCleared',
                         level := initialLevel (config this) +
                           \<lfloor>real_of_int totalLinesCleared' /
                            real_of_int (linesPerLevel (config this))\<rfloor>\<rparr>))"






text \<open>
  A sequence of \<^verbatim>\<open>clearLines(count)\<close> calls on one manager: the states after each call,
  in order.
\<close>

fun clearLinesCalls :: "ScoreManager \<Rightarrow> int list \<Rightarrow> ScoreManager list option" where
  "clearLinesCalls this [] = Some []"
| "clearLinesCalls this (count # counts) =
     (case ScoreManager_clearLines this count of
        None \<Rightarrow> None
      | Some this' \<Rightarrow>
          (case clearLinesCalls this' counts of
             None \<Rightarrow> None
           | Some states \<Rightarrow> Some (this' # states)))"

section \<open>The catalog as objects: \<^verbatim>\<open>getTetrominoByIndex\<close> (tetromino module)\<close>

text \<open>
  Whether a caller can change the catalog through what \<^verbatim>\<open>getTetrominoByIndex\<close> returns
  depends on which array objects are shared, so this part models arrays as objects in a
  store. An address is an index into the store; an object is an array of numbers (a row)
  or an array of references (a shape, or the array \<^verbatim>\<open>TETROMINOS\<close>); a new array goes to the
  end of the store, and a write to an array replaces the object at its address.
\<close>

type_synonym addr = nat

datatype obj = NumberArray "cell list" | RefArray "addr list"

type_synonym heap = "obj list"

definition alloc :: "heap \<Rightarrow> obj \<Rightarrow> addr \<times> heap" where
  "alloc h ob = (length h, h @ [ob])"

text \<open>The elements of the array of references, or of numbers, at an address.\<close>

definition refsOf :: "heap \<Rightarrow> addr \<Rightarrow> addr list" where
  "refsOf h a =
     (if a < length h then (case h ! a of RefArray as \<Rightarrow> as | NumberArray cs \<Rightarrow> []) else [])"

definition cellsOf :: "heap \<Rightarrow> addr \<Rightarrow> cell list" where
  "cellsOf h a =
     (if a < length h then (case h ! a of NumberArray cs \<Rightarrow> cs | RefArray as \<Rightarrow> []) else [])"

text \<open>The shape that the array of rows at an address holds.\<close>

definition shapeAt :: "heap \<Rightarrow> addr \<Rightarrow> BlockShape" where
  "shapeAt h a = map (cellsOf h) (refsOf h a)"

text \<open>
  The array literals of the module: a literal such as \<^verbatim>\<open>I_PIECE\<close> creates its row arrays
  and then the array of them; \<^verbatim>\<open>TETROMINOS\<close> is the array of the seven shapes, created
  after them. \<open>moduleInit\<close> is the address of \<^verbatim>\<open>TETROMINOS\<close> and the store once the module
  is loaded.
\<close>

fun allocRows :: "heap \<Rightarrow> cell list list \<Rightarrow> addr list \<times> heap" where
  "allocRows h [] = ([], h)"
| "allocRows h (row # rows) =
     (let (a, h1) = alloc h (NumberArray row);
          (as, h2) = allocRows h1 rows
      in (a # as, h2))"

definition allocShape :: "heap \<Rightarrow> BlockShape \<Rightarrow> addr \<times> heap" where
  "allocShape h shape = (let (as, h1) = allocRows h shape in alloc h1 (RefArray as))"

fun allocShapes :: "heap \<Rightarrow> BlockShape list \<Rightarrow> addr list \<times> heap" where
  "allocShapes h [] = ([], h)"
| "allocShapes h (shape # shapes) =
     (let (a, h1) = allocShape h shape;
          (as, h2) = allocShapes h1 shapes
      in (a # as, h2))"

definition moduleInit :: "addr \<times> heap" where
  "moduleInit = (let (as, h) = allocShapes [] TETROMINOS in alloc h (RefArray as))"

definition TETROMINOS_ref :: addr where
  "TETROMINOS_ref = fst moduleInit"

definition moduleHeap :: heap where
  "moduleHeap = snd moduleInit"

text \<open>
  A store that holds the catalog: the objects the module created are at their
  addresses, unchanged. The module exports no reference to them, so every store the
  program reaches is of this kind as long as the functions of the module keep it so.
\<close>

definition hasCatalog :: "heap \<Rightarrow> bool" where
  "hasCatalog h \<longleftrightarrow> take (length moduleHeap) h = moduleHeap"

text \<open>\<^verbatim>\<open>.map((row) => [...row])\<close>: a new array of numbers for each row, with the row's cells.\<close>

fun copyRows :: "heap \<Rightarrow> addr list \<Rightarrow> addr list \<times> heap" where
  "copyRows h [] = ([], h)"
| "copyRows h (row # rows) =
     (let (a, h1) = alloc h (NumberArray (cellsOf h row));
          (as, h2) = copyRows h1 rows
      in (a # as, h2))"

text \<open>
  \<^verbatim>\<open>getTetrominoByIndex\<close>: the error for an index outside the array, otherwise the
  address of the new array of copied rows, and the store with the new arrays.
\<close>

definition getTetrominoByIndex :: "heap \<Rightarrow> int \<Rightarrow> js_error + (addr \<times> heap)" where
  "getTetrominoByIndex h index =
     (let tetrominos = refsOf h TETROMINOS_ref
      in if index < 0 \<or> index \<ge> int (length tetrominos) then Inl (InvalidTetrominoIndex index)
         else
           let (copies, h1) = copyRows h (refsOf h (tetrominos ! nat index))
           in Inr (alloc h1 (RefArray copies)))"

section \<open>Properties of \<^verbatim>\<open>isPositionValid\<close>\<close>

lemma checkCells_eq:
  assumes "GRID_HEIGHT \<le> length grid"
  shows "checkCells grid cells offsetX offsetY shapeY shapeX =
           Inr (\<forall>j<length cells. cells ! j \<noteq> Some 0 \<longrightarrow>
                  cellFits grid (offsetX + int (shapeX + j)) (offsetY + int shapeY))"
proof (induction cells arbitrary: shapeX)
  case Nil
  show ?case by simp
next
  case (Cons c cells)
  show ?case
  proof (cases "c = Some 0")
    case True
    then show ?thesis
      by (simp add: Cons.IH All_less_Suc2 add_ac)
  next
    case False
    show ?thesis
    proof (cases "cellFits grid (offsetX + int shapeX) (offsetY + int shapeY)")
      case True
      then have "nat (offsetY + int shapeY) < length grid"
        using assms unfolding cellFits_def by linarith
      with True False show ?thesis
        by (simp add: Cons.IH All_less_Suc2 cellFits_def Let_def add_ac)
    next
      case no: False
      then have "checkCells grid (c # cells) offsetX offsetY shapeY shapeX = Inr False"
        using False assms by (auto simp: cellFits_def Let_def)
      moreover have "\<not> (\<forall>j<length (c # cells). (c # cells) ! j \<noteq> Some 0 \<longrightarrow>
                  cellFits grid (offsetX + int (shapeX + j)) (offsetY + int shapeY))"
        using no False by (auto simp: All_less_Suc2)
      ultimately show ?thesis by simp
    qed
  qed
qed

lemma checkRows_eq:
  assumes "GRID_HEIGHT \<le> length grid"
  shows "checkRows grid rows offsetX offsetY shapeY =
           Inr (\<forall>i<length rows. \<forall>j<length (rows ! i). rows ! i ! j \<noteq> Some 0 \<longrightarrow>
                  cellFits grid (offsetX + int j) (offsetY + int (shapeY + i)))"
proof (induction rows arbitrary: shapeY)
  case Nil
  show ?case by simp
next
  case (Cons row rows)
  show ?case
    by (simp add: checkCells_eq [OF assms] Cons.IH All_less_Suc2 add_ac split: bool.split)
qed

lemma isPositionValid_eq:
  assumes "GRID_HEIGHT \<le> length grid"
  shows "isPositionValid grid shape offsetX offsetY =
           Inr (\<forall>i<length shape. \<forall>j<length (shape ! i). shape ! i ! j \<noteq> Some 0 \<longrightarrow>
                  cellFits grid (offsetX + int j) (offsetY + int i))"
  by (simp add: isPositionValid_def checkRows_eq [OF assms])

lemma isBoard_length: "isBoard grid \<Longrightarrow> length grid = GRID_HEIGHT"
  by (simp add: isBoard_def)

lemma isBoard_row_length:
  "isBoard grid \<Longrightarrow> r < GRID_HEIGHT \<Longrightarrow> length (grid ! r) = GRID_WIDTH"
  by (simp add: isBoard_def list_all_length)

lemma isBoard_js_get:
  "isBoard grid \<Longrightarrow> r < GRID_HEIGHT \<Longrightarrow> c < GRID_WIDTH \<Longrightarrow> js_get (grid ! r) c = grid ! r ! c"
  by (simp add: js_get_def isBoard_row_length)

lemma isBoard_emptyBoard: "isBoard emptyBoard"
  by (simp add: isBoard_def emptyBoard_def emptyRow_def list_all_length)

lemma isPositionValid_board:
  assumes "isBoard grid"
  shows "isPositionValid grid shape offsetX offsetY =
           Inr (\<not> (\<exists>i j. occupied shape i j \<and>
                     (outOfBounds (offsetX + int j) (offsetY + int i) \<or>
                      grid ! nat (offsetY + int i) ! nat (offsetX + int j) \<noteq> Some 0)))"
proof -
  have len: "GRID_HEIGHT \<le> length grid"
    using assms by (simp add: isBoard_length)
  have fits: "cellFits grid gx gy \<longleftrightarrow>
                \<not> (outOfBounds gx gy \<or> grid ! nat gy ! nat gx \<noteq> Some 0)" for gx gy
  proof (cases "outOfBounds gx gy")
    case True
    then show ?thesis by (auto simp: cellFits_def outOfBounds_def)
  next
    case False
    then have "nat gy < GRID_HEIGHT" "nat gx < GRID_WIDTH"
      unfolding outOfBounds_def by linarith+
    then have "js_get (grid ! nat gy) (nat gx) = grid ! nat gy ! nat gx"
      using assms by (simp add: isBoard_js_get)
    with False show ?thesis by (auto simp: cellFits_def outOfBounds_def)
  qed
  show ?thesis
    unfolding isPositionValid_eq [OF len] fits occupied_def by auto
qed

text \<open>
  On a grid with fewer than 20 rows the source fails instead of answering: the row
  \<^verbatim>\<open>grid[gridY]\<close> is \<^verbatim>\<open>undefined\<close> and reading its cell raises a TypeError.
\<close>

lemma isPositionValid_short_grid: "isPositionValid [] [[Some 1]] 0 0 = Inl TypeError"
  by (simp add: isPositionValid_def GRID_WIDTH_def GRID_HEIGHT_def)

section \<open>Claims about \<^verbatim>\<open>isPositionValid\<close>\<close>

text \<open>
  C1. On every board (20 rows of 10 cells), for every shape and all integer offsets,
  \<^verbatim>\<open>isPositionValid\<close> returns without failing; it returns false if some occupied cell
  (value \<open>\<noteq> 0\<close>) of the shape maps to a column outside \<open>[0, 10)\<close> or a row outside
  \<open>[0, 20)\<close>, false if some occupied cell maps onto a grid cell whose value is not 0,
  and true otherwise. The function is a pure function of its arguments: the source has
  no assignment to the grid or to the shape, so the model returns the verdict only.
\<close>

theorem isPositionValid_spec:
  assumes "isBoard grid"
  shows "isPositionValid grid shape offsetX offsetY =
           Inr (\<not> (\<exists>shapeY shapeX. occupied shape shapeY shapeX \<and>
                     (offsetX + int shapeX < 0 \<or> offsetX + int shapeX \<ge> 10 \<or>
                      offsetY + int shapeY < 0 \<or> offsetY + int shapeY \<ge> 20 \<or>
                      grid ! nat (offsetY + int shapeY) ! nat (offsetX + int shapeX) \<noteq> Some 0)))"
  using isPositionValid_board [OF assms, of shape offsetX offsetY]
  by (simp add: outOfBounds_def GRID_WIDTH_def GRID_HEIGHT_def disj_ac)

theorem isPositionValid_spec_witness:
  "isBoard emptyBoard \<and>
   isPositionValid emptyBoard [[Some 0, Some 2, Some 2], [Some 0, Some 2, Some 2]] 3 18 = Inr True \<and>
   \<not> (\<exists>shapeY shapeX. occupied [[Some 0, Some 2, Some 2], [Some 0, Some 2, Some 2]] shapeY shapeX \<and>
          (3 + int shapeX < 0 \<or> 3 + int shapeX \<ge> 10 \<or>
           18 + int shapeY < 0 \<or> 18 + int shapeY \<ge> 20 \<or>
           emptyBoard ! nat (18 + int shapeY) ! nat (3 + int shapeX) \<noteq> Some 0))"
proof -
  have v: "isPositionValid emptyBoard [[Some 0, Some 2, Some 2], [Some 0, Some 2, Some 2]] 3 18 = Inr True"
    by code_simp
  show ?thesis
    using isBoard_emptyBoard v
      isPositionValid_spec [OF isBoard_emptyBoard, of "[[Some 0, Some 2, Some 2], [Some 0, Some 2, Some 2]]" 3 18]
    by simp
qed

section \<open>Properties of the rotation\<close>

lemma writeCell_length: "length (writeCell m r c v) = length m"
  by (simp add: writeCell_def)

lemma writeCell_row_length:
  "c < length (m ! r) \<Longrightarrow> length (writeCell m r c v ! r') = length (m ! r')"
  by (cases "r < length m"; cases "r' = r") (simp_all add: writeCell_def js_set_def list_update_beyond)

lemma writeCell_nth:
  "r < length m \<Longrightarrow> c < length (m ! r) \<Longrightarrow>
   writeCell m r c v ! r' ! c' = (if r' = r \<and> c' = c then v else m ! r' ! c')"
  by (cases "r' = r"; cases "c' = c") (simp_all add: writeCell_def js_set_def)

lemma fold_writeCell_size:
  assumes "length m = n" "\<forall>r<n. length (m ! r) = n"
    and "\<forall>k\<in>set ks. R k < n \<and> C k < n"
  shows "length (fold (\<lambda>k m. writeCell m (R k) (C k) (V k)) ks m) = n \<and>
         (\<forall>r<n. length (fold (\<lambda>k m. writeCell m (R k) (C k) (V k)) ks m ! r) = n)"
  using assms
proof (induction ks arbitrary: m)
  case Nil
  then show ?case by simp
next
  case (Cons k ks)
  have "length (writeCell m (R k) (C k) (V k)) = n"
    using Cons.prems by (simp add: writeCell_length)
  moreover have "\<forall>r<n. length (writeCell m (R k) (C k) (V k) ! r) = n"
    using Cons.prems by (simp add: writeCell_row_length)
  ultimately show ?case
    using Cons.IH [of "writeCell m (R k) (C k) (V k)"] Cons.prems(3) by simp
qed

lemma fold_writeCell_nth:
  assumes "length m = n" "\<forall>r<n. length (m ! r) = n"
    and "\<forall>k\<in>set ks. R k < n \<and> C k < n"
    and "inj_on (\<lambda>k. (R k, C k)) (set ks)"
    and "k \<in> set ks"
  shows "fold (\<lambda>k m. writeCell m (R k) (C k) (V k)) ks m ! R k ! C k = V k"
  using assms(3-5)
proof (induction ks rule: rev_induct)
  case Nil
  then show ?case by simp
next
  case (snoc k' ks)
  let ?m = "fold (\<lambda>k m. writeCell m (R k) (C k) (V k)) ks m"
  have sz: "length ?m = n" "\<forall>r<n. length (?m ! r) = n"
    using fold_writeCell_size [OF assms(1,2), of ks R C V] snoc.prems(1) by auto
  have k': "R k' < n" "C k' < n"
    using snoc.prems(1) by auto
  have step: "fold (\<lambda>k m. writeCell m (R k) (C k) (V k)) (ks @ [k']) m ! R k ! C k =
              (if R k = R k' \<and> C k = C k' then V k' else ?m ! R k ! C k)"
    using sz k' by (simp add: writeCell_nth)
  show ?case
  proof (cases "k = k'")
    case True
    with step show ?thesis by simp
  next
    case False
    then have kin: "k \<in> set ks"
      using snoc.prems(3) by simp
    have "(R k, C k) \<noteq> (R k', C k')"
      using snoc.prems(2) False kin by (auto simp: inj_on_def)
    moreover have "?m ! R k ! C k = V k"
      using snoc.IH kin snoc.prems(1,2) by (auto simp: inj_on_def)
    ultimately show ?thesis using step by auto
  qed
qed

lemma nested_fold_product:
  "fold (\<lambda>i. fold (\<lambda>j. f i j) js) is m = fold (\<lambda>(i, j). f i j) (List.product is js) m"
  by (induction "is" arbitrary: m) (simp_all add: fold_map comp_def)


lemma rotate_fold_size:
  assumes "\<forall>k\<in>set ks. R k < n \<and> C k < n"
  shows "length (fold (\<lambda>k m. writeCell m (R k) (C k) (V k)) ks (replicate n (replicate n (Some 0)))) = n \<and>
         (\<forall>r<n. length (fold (\<lambda>k m. writeCell m (R k) (C k) (V k)) ks
                           (replicate n (replicate n (Some 0))) ! r) = n)"
  by (rule fold_writeCell_size) (use assms in simp_all)

lemma rotateShape_clockwise_fold:
  "rotateShape shape clockwise =
     fold (\<lambda>k m. writeCell m (snd k) (length shape - 1 - fst k) (js_get (shape ! fst k) (snd k)))
       (List.product [0..<length shape] [0..<length shape])
       (replicate (length shape) (replicate (length shape) (Some 0)))"
  by (simp add: rotateShape_def Let_def nested_fold_product split_def)

lemma rotateShape_counterClockwise_fold:
  "rotateShape shape counterClockwise =
     fold (\<lambda>k m. writeCell m (length shape - 1 - snd k) (fst k) (js_get (shape ! fst k) (snd k)))
       (List.product [0..<length shape] [0..<length shape])
       (replicate (length shape) (replicate (length shape) (Some 0)))"
  by (simp add: rotateShape_def Let_def nested_fold_product split_def)

lemma rotateShape_size:
  "length (rotateShape shape dir) = length shape \<and>
   (\<forall>r<length shape. length (rotateShape shape dir ! r) = length shape)"
proof (cases dir)
  case clockwise
  show ?thesis
    unfolding clockwise rotateShape_clockwise_fold
    by (rule rotate_fold_size) auto
next
  case counterClockwise
  show ?thesis
    unfolding counterClockwise rotateShape_counterClockwise_fold
    by (rule rotate_fold_size) auto
qed

lemma rotateShape_length: "length (rotateShape shape dir) = length shape"
  using rotateShape_size by blast

lemma rotateShape_row_length:
  "r < length shape \<Longrightarrow> length (rotateShape shape dir ! r) = length shape"
  using rotateShape_size by blast

lemma rotateShape_clockwise_nth:
  assumes "i < length shape" "j < length shape"
  shows "rotateShape shape clockwise ! j ! (length shape - 1 - i) = js_get (shape ! i) j"
proof -
  let ?n = "length shape"
  let ?ks = "List.product [0..<?n] [0..<?n]"
  have inj: "inj_on (\<lambda>k. (snd k, ?n - 1 - fst k)) (set ?ks)"
    by (auto simp: inj_on_def)
  have "fold (\<lambda>k m. writeCell m (snd k) (?n - 1 - fst k) (js_get (shape ! fst k) (snd k))) ?ks
          (replicate ?n (replicate ?n (Some 0))) ! snd (i, j) ! (?n - 1 - fst (i, j)) =
        js_get (shape ! fst (i, j)) (snd (i, j))"
    by (rule fold_writeCell_nth [where n = ?n]) (use assms inj in auto)
  then show ?thesis
    by (simp add: rotateShape_clockwise_fold)
qed

lemma rotateShape_counterClockwise_nth:
  assumes "i < length shape" "j < length shape"
  shows "rotateShape shape counterClockwise ! (length shape - 1 - j) ! i = js_get (shape ! i) j"
proof -
  let ?n = "length shape"
  let ?ks = "List.product [0..<?n] [0..<?n]"
  have inj: "inj_on (\<lambda>k. (?n - 1 - snd k, fst k)) (set ?ks)"
    by (auto simp: inj_on_def)
  have "fold (\<lambda>k m. writeCell m (?n - 1 - snd k) (fst k) (js_get (shape ! fst k) (snd k))) ?ks
          (replicate ?n (replicate ?n (Some 0))) ! (?n - 1 - snd (i, j)) ! fst (i, j) =
        js_get (shape ! fst (i, j)) (snd (i, j))"
    by (rule fold_writeCell_nth [where n = ?n]) (use assms inj in auto)
  then show ?thesis
    by (simp add: rotateShape_counterClockwise_fold)
qed

lemma rotateTetromino_eq: "rotateTetromino shape = rotateShape shape clockwise"
  by (simp add: rotateTetromino_def rotateShape_def)


lemma rotateShape_clockwise_cell:
  assumes "r < length shape" "c < length shape"
  shows "rotateShape shape clockwise ! r ! c = js_get (shape ! (length shape - 1 - c)) r"
  using rotateShape_clockwise_nth [of "length shape - 1 - c" shape r] assms by simp

lemma rotateShape_counterClockwise_cell:
  assumes "r < length shape" "c < length shape"
  shows "rotateShape shape counterClockwise ! r ! c = js_get (shape ! c) (length shape - 1 - r)"
  using rotateShape_counterClockwise_nth [of c shape "length shape - 1 - r"] assms by simp

lemma isSquare_js_get:
  "isSquare shape \<Longrightarrow> i < length shape \<Longrightarrow> j < length shape \<Longrightarrow> js_get (shape ! i) j = shape ! i ! j"
  by (simp add: isSquare_def list_all_length js_get_def)

lemma isSquare_rotateShape: "isSquare (rotateShape shape dir)"
  by (simp add: isSquare_def list_all_length rotateShape_length rotateShape_row_length)

lemma square_eqI:
  assumes "isSquare s" "isSquare t" "length s = length t"
    and "\<And>r c. r < length t \<Longrightarrow> c < length t \<Longrightarrow> s ! r ! c = t ! r ! c"
  shows "s = t"
proof (rule nth_equalityI)
  show "length s = length t" by fact
next
  fix r assume r: "r < length s"
  show "s ! r = t ! r"
  proof (rule nth_equalityI)
    show "length (s ! r) = length (t ! r)"
      using assms(1-3) r by (simp add: isSquare_def list_all_length)
  next
    fix c assume "c < length (s ! r)"
    then have "c < length t"
      using assms(1,3) r by (simp add: isSquare_def list_all_length)
    then show "s ! r ! c = t ! r ! c"
      using assms(3,4) r by simp
  qed
qed

lemma cw_square_cell:
  assumes "isSquare shape" "r < length shape" "c < length shape"
  shows "rotateShape shape clockwise ! r ! c = shape ! (length shape - 1 - c) ! r"
  using assms by (simp add: rotateShape_clockwise_cell isSquare_js_get)

lemma ccw_square_cell:
  assumes "isSquare shape" "r < length shape" "c < length shape"
  shows "rotateShape shape counterClockwise ! r ! c = shape ! c ! (length shape - 1 - r)"
  using assms by (simp add: rotateShape_counterClockwise_cell isSquare_js_get)

lemma rot4_cell:
  assumes "isSquare shape" "r < length shape" "c < length shape"
  shows "rotateShape (rotateShape (rotateShape (rotateShape shape dir) dir) dir) dir ! r ! c =
         shape ! r ! c"
proof (cases dir)
  case clockwise
  show ?thesis
    unfolding clockwise using assms
    by (simp add: cw_square_cell isSquare_rotateShape rotateShape_length)
next
  case counterClockwise
  show ?thesis
    unfolding counterClockwise using assms
    by (simp add: ccw_square_cell isSquare_rotateShape rotateShape_length)
qed

lemma rotateShape_four_times:
  assumes "isSquare shape"
  shows "rotateShape (rotateShape (rotateShape (rotateShape shape dir) dir) dir) dir = shape"
  by (rule square_eqI) (simp_all add: assms isSquare_rotateShape rotateShape_length rot4_cell)

lemma rotateShape_cw_ccw:
  assumes "isSquare shape"
  shows "rotateShape (rotateShape shape clockwise) counterClockwise = shape"
  by (rule square_eqI)
    (simp_all add: assms isSquare_rotateShape rotateShape_length cw_square_cell ccw_square_cell)

lemma rotateShape_ccw_cw:
  assumes "isSquare shape"
  shows "rotateShape (rotateShape shape counterClockwise) clockwise = shape"
  by (rule square_eqI)
    (simp_all add: assms isSquare_rotateShape rotateShape_length cw_square_cell ccw_square_cell)

lemma count_row: "length (filter P xs) = (\<Sum>c<length xs. if P (xs ! c) then 1 else 0)"
proof (induction xs rule: rev_induct)
  case Nil
  show ?case by simp
next
  case (snoc a xs)
  have "(\<Sum>c<length xs. if P ((xs @ [a]) ! c) then 1 else 0) =
        (\<Sum>c<length xs. if P (xs ! c) then 1 else (0::nat))"
    by (rule sum.cong) (simp_all add: nth_append)
  with snoc show ?case by simp
qed

lemma count_rows: "length (filter P (concat t)) = (\<Sum>r<length t. length (filter P (t ! r)))"
proof (induction t rule: rev_induct)
  case Nil
  show ?case by simp
next
  case (snoc a t)
  have "(\<Sum>r<length t. length (filter P ((t @ [a]) ! r))) =
        (\<Sum>r<length t. length (filter P (t ! r)))"
    by (rule sum.cong) (simp_all add: nth_append)
  with snoc show ?case by simp
qed

lemma occupiedCount_square:
  assumes "isSquare t"
  shows "occupiedCount t =
         (\<Sum>r<length t. \<Sum>c<length t. if t ! r ! c \<noteq> Some 0 then 1 else 0)"
proof -
  have "occupiedCount t = (\<Sum>r<length t. length (filter (\<lambda>v. v \<noteq> Some 0) (t ! r)))"
    by (simp add: occupiedCount_def count_rows)
  also have "\<dots> = (\<Sum>r<length t. \<Sum>c<length t. if t ! r ! c \<noteq> Some 0 then 1 else 0)"
  proof (rule sum.cong)
    fix r assume "r \<in> {..<length t}"
    then have "length (t ! r) = length t"
      using assms by (simp add: isSquare_def list_all_length)
    then show "length (filter (\<lambda>v. v \<noteq> Some 0) (t ! r)) =
               (\<Sum>c<length t. if t ! r ! c \<noteq> Some 0 then 1 else 0)"
      using count_row [of "\<lambda>v. v \<noteq> Some 0" "t ! r"] by simp
  qed simp
  finally show ?thesis .
qed

lemma occupiedCount_rotateShape:
  assumes "isSquare shape"
  shows "occupiedCount (rotateShape shape dir) = occupiedCount shape"
proof -
  let ?n = "length shape"
  let ?b = "\<lambda>i j. if shape ! i ! j \<noteq> Some 0 then 1 else (0::nat)"
  have src: "occupiedCount shape = (\<Sum>i<?n. \<Sum>j<?n. ?b i j)"
    using occupiedCount_square [OF assms] .
  have rot: "occupiedCount (rotateShape shape d) =
        (\<Sum>r<?n. \<Sum>c<?n. if rotateShape shape d ! r ! c \<noteq> Some 0 then 1 else 0)" for d
    using occupiedCount_square [OF isSquare_rotateShape, of shape d]
    by (simp add: rotateShape_length)
  show ?thesis
  proof (cases dir)
    case clockwise
    have "occupiedCount (rotateShape shape dir) = (\<Sum>r<?n. \<Sum>c<?n. ?b (?n - Suc c) r)"
      unfolding clockwise rot
      by (intro sum.cong refl) (simp add: cw_square_cell assms)
    also have "\<dots> = (\<Sum>c<?n. \<Sum>r<?n. ?b (?n - Suc c) r)"
      by (rule sum.swap)
    also have "\<dots> = (\<Sum>i<?n. \<Sum>r<?n. ?b i r)"
      by (rule sum.nat_diff_reindex)
    finally show ?thesis by (simp add: src)
  next
    case counterClockwise
    have "occupiedCount (rotateShape shape dir) = (\<Sum>r<?n. \<Sum>c<?n. ?b c (?n - Suc r))"
      unfolding counterClockwise rot
      by (intro sum.cong refl) (simp add: ccw_square_cell assms)
    also have "\<dots> = (\<Sum>c<?n. \<Sum>r<?n. ?b c (?n - Suc r))"
      by (rule sum.swap)
    also have "\<dots> = (\<Sum>c<?n. \<Sum>j<?n. ?b c j)"
      by (intro sum.cong refl sum.nat_diff_reindex)
    finally show ?thesis by (simp add: src)
  qed
qed

section \<open>Claims about \<^verbatim>\<open>rotateShape\<close>\<close>

text \<open>
  C7. For every square shape (\<open>N\<close> rows of \<open>N\<close> cells), four applications of
  \<^verbatim>\<open>rotateShape\<close> in the same direction, clockwise or counter-clockwise, give back the
  shape. The clockwise rotation puts the cell at row \<open>i\<close>, column \<open>j\<close> of the shape at
  row \<open>j\<close>, column \<open>N - 1 - i\<close> of the result (\<^verbatim>\<open>rotated[j][n - 1 - i] = shape[i][j]\<close>); the
  counter-clockwise rotation puts it at row \<open>N - 1 - j\<close>, column \<open>i\<close>, and is the inverse of
  the clockwise one on both sides. No occupied cell is lost: the number of occupied
  cells is unchanged. \<^verbatim>\<open>rotateTetromino\<close> of the tetromino module is the clockwise
  rotation.
\<close>

theorem rotateShape_round_trip:
  assumes "isSquare shape"
  shows "rotateShape (rotateShape (rotateShape (rotateShape shape clockwise) clockwise)
            clockwise) clockwise = shape \<and>
         rotateShape (rotateShape (rotateShape (rotateShape shape counterClockwise)
            counterClockwise) counterClockwise) counterClockwise = shape \<and>
         (\<forall>i<length shape. \<forall>j<length shape.
            rotateShape shape clockwise ! j ! (length shape - 1 - i) = shape ! i ! j) \<and>
         (\<forall>i<length shape. \<forall>j<length shape.
            rotateShape shape counterClockwise ! (length shape - 1 - j) ! i = shape ! i ! j) \<and>
         rotateShape (rotateShape shape clockwise) counterClockwise = shape \<and>
         rotateShape (rotateShape shape counterClockwise) clockwise = shape \<and>
         isSquare (rotateShape shape clockwise) \<and>
         isSquare (rotateShape shape counterClockwise) \<and>
         length (rotateShape shape clockwise) = length shape \<and>
         length (rotateShape shape counterClockwise) = length shape \<and>
         occupiedCount (rotateShape shape clockwise) = occupiedCount shape \<and>
         occupiedCount (rotateShape shape counterClockwise) = occupiedCount shape \<and>
         rotateTetromino shape = rotateShape shape clockwise \<and>
         rotateTetromino (rotateTetromino (rotateTetromino (rotateTetromino shape))) = shape"
proof -
  have cw: "\<forall>i<length shape. \<forall>j<length shape.
            rotateShape shape clockwise ! j ! (length shape - 1 - i) = shape ! i ! j"
    using assms rotateShape_clockwise_nth [of _ shape] by (simp add: isSquare_js_get)
  have ccw: "\<forall>i<length shape. \<forall>j<length shape.
            rotateShape shape counterClockwise ! (length shape - 1 - j) ! i = shape ! i ! j"
    using assms rotateShape_counterClockwise_nth [of _ shape] by (simp add: isSquare_js_get)
  show ?thesis
    using cw ccw assms
    by (simp add: rotateShape_four_times rotateShape_cw_ccw rotateShape_ccw_cw
        isSquare_rotateShape rotateShape_length occupiedCount_rotateShape rotateTetromino_eq)
qed


theorem rotateShape_round_trip_witness:
  "isSquare T_PIECE \<and>
   rotateShape (rotateShape (rotateShape (rotateShape T_PIECE clockwise) clockwise)
      clockwise) clockwise = T_PIECE \<and>
   rotateShape (rotateShape (rotateShape (rotateShape T_PIECE counterClockwise)
      counterClockwise) counterClockwise) counterClockwise = T_PIECE \<and>
   rotateShape T_PIECE clockwise =
     [[Some 0, Some 3, Some 0, Some 0],
      [Some 0, Some 3, Some 3, Some 0],
      [Some 0, Some 3, Some 0, Some 0],
      [Some 0, Some 0, Some 0, Some 0]] \<and>
   occupiedCount (rotateShape T_PIECE clockwise) = occupiedCount T_PIECE"
proof -
  have sq: "isSquare T_PIECE"
    by code_simp
  have r: "rotateShape T_PIECE clockwise =
     [[Some 0, Some 3, Some 0, Some 0],
      [Some 0, Some 3, Some 3, Some 0],
      [Some 0, Some 3, Some 0, Some 0],
      [Some 0, Some 0, Some 0, Some 0]]"
    by code_simp
  show ?thesis
    using sq r rotateShape_round_trip [OF sq] by simp
qed

section \<open>Properties of the rotation attempts\<close>

lemma isPositionValid_board_cases:
  assumes "isBoard grid"
  obtains "isPositionValid grid shape offsetX offsetY = Inr True"
  | "isPositionValid grid shape offsetX offsetY = Inr False"
proof -
  obtain b where "isPositionValid grid shape offsetX offsetY = Inr b"
    using isPositionValid_board [OF assms] by blast
  then show thesis
    using that by (cases b) auto
qed

lemma wallKickLoop_find:
  assumes "isBoard grid"
  shows "wallKickLoop grid shape rot offsetX offsetY kicks =
           Inr (case find (\<lambda>kick. isPositionValid grid rot (offsetX + kick) offsetY = Inr True) kicks of
                  Some kick \<Rightarrow> \<lparr>rotated = rot, x = offsetX + kick, y = offsetY, valid = True\<rparr>
                | None \<Rightarrow> \<lparr>rotated = shape, x = offsetX, y = offsetY, valid = False\<rparr>)"
proof (induction kicks)
  case Nil
  show ?case by simp
next
  case (Cons kick kicks)
  show ?case
    by (rule isPositionValid_board_cases [OF assms, of rot "offsetX + kick" offsetY])
      (simp_all add: Cons.IH Let_def)
qed

lemma attemptRotation_loop:
  "attemptRotation grid shape offsetX offsetY dir =
     wallKickLoop grid shape (rotateShape shape dir) offsetX offsetY (0 # wallKickOffsets)"
  by (simp add: attemptRotation_def Let_def)

lemma srsKickLoop_find:
  assumes "isBoard grid"
  shows "srsKickLoop grid shape rot offsetX offsetY cur new kicks =
           Inr (case find (\<lambda>(kickX, kickY).
                        isPositionValid grid rot (offsetX + kickX) (offsetY + kickY) = Inr True) kicks of
                  Some (kickX, kickY) \<Rightarrow>
                    \<lparr>rotated = rot, x = offsetX + kickX, y = offsetY + kickY, valid = True,
                     newRotation = new\<rparr>
                | None \<Rightarrow>
                    \<lparr>rotated = shape, x = offsetX, y = offsetY, valid = False,
                     newRotation = cur\<rparr>)"
proof (induction kicks)
  case Nil
  show ?case by simp
next
  case (Cons kick kicks)
  obtain kickX kickY where kick: "kick = (kickX, kickY)"
    by (cases kick)
  show ?case
    unfolding kick
    by (rule isPositionValid_board_cases [OF assms, of rot "offsetX + kickX" "offsetY + kickY"])
      (simp_all add: Cons.IH Let_def)
qed

lemma find_None_all_fail:
  "(\<forall>k\<in>set ks. \<not> P k) \<Longrightarrow> find P ks = None"
  by (simp add: find_None_iff)

text \<open>For the four rotation states 0 to 3 the table has an entry for every transition.\<close>

lemma kickData_entry:
  assumes "0 \<le> cur" "cur < 4"
  shows "map_of (kickData isIPiece) (transitionKey dir cur) \<noteq> None"
proof -
  from assms have "cur = 0 \<or> cur = 1 \<or> cur = 2 \<or> cur = 3"
    by auto
  then show ?thesis
    by (cases dir; cases isIPiece)
      (auto simp: kickData_def transitionKey_def stateLabel_def rotationStates_def
        newRotationOf_def signed_modulo_int_def
        SRS_WALL_KICK_DATA_I_def SRS_WALL_KICK_DATA_standard_def)
qed

section \<open>Claims about the rotation attempts\<close>

text \<open>
  C2. On every board, for every shape, offsets and direction, \<^verbatim>\<open>attemptRotation\<close> returns
  without failing. It tests the rotated shape at the unchanged offset first (kick 0) and
  then at the column offsets \<open>+1, -1, +2, -2\<close> in that order, the row unchanged; the first
  of them for which \<^verbatim>\<open>isPositionValid\<close> succeeds gives the result: the rotated shape at
  that column with \<open>valid = true\<close>. If none succeeds, the result is the original shape at
  the unchanged offsets with \<open>valid = false\<close>. The function writes only into the array
  that \<^verbatim>\<open>rotateShape\<close> has allocated, so the grid, the shape and the offsets are values
  it reads and never changes.
\<close>

theorem attemptRotation_spec:
  assumes "isBoard grid"
  shows "attemptRotation grid shape offsetX offsetY dir =
           Inr (case find (\<lambda>kick. isPositionValid grid (rotateShape shape dir)
                                 (offsetX + kick) offsetY = Inr True) [0, 1, -1, 2, -2] of
                  Some kick \<Rightarrow>
                    \<lparr>rotated = rotateShape shape dir, x = offsetX + kick, y = offsetY,
                     valid = True\<rparr>
                | None \<Rightarrow> \<lparr>rotated = shape, x = offsetX, y = offsetY, valid = False\<rparr>)"
  unfolding attemptRotation_loop wallKickOffsets_def
  by (rule wallKickLoop_find [OF assms])

theorem attemptRotation_spec_witness:
  "isBoard emptyBoard \<and>
   attemptRotation emptyBoard I_PIECE 8 0 clockwise =
     Inr \<lparr>rotated = rotateShape I_PIECE clockwise, x = 7, y = 0, valid = True\<rparr> \<and>
   find (\<lambda>kick. isPositionValid emptyBoard (rotateShape I_PIECE clockwise) (8 + kick) 0 = Inr True)
     [0, 1, -1, 2, -2] = Some (-1) \<and>
   attemptRotation emptyBoard I_PIECE 100 0 clockwise =
     Inr \<lparr>rotated = I_PIECE, x = 100, y = 0, valid = False\<rparr>"
proof -
  have f: "find (\<lambda>kick. isPositionValid emptyBoard (rotateShape I_PIECE clockwise) (8 + kick) 0 = Inr True)
     [0, 1, -1, 2, -2] = Some (-1)"
    by code_simp
  have g: "find (\<lambda>kick. isPositionValid emptyBoard (rotateShape I_PIECE clockwise) (100 + kick) 0 = Inr True)
     [0, 1, -1, 2, -2] = None"
    by code_simp
  show ?thesis
    using isBoard_emptyBoard f g
      attemptRotation_spec [OF isBoard_emptyBoard, of I_PIECE 8 0 clockwise]
      attemptRotation_spec [OF isBoard_emptyBoard, of I_PIECE 100 0 clockwise]
    by simp
qed

text \<open>
  C8. On every board, for every shape, offsets, direction, rotation-state index (any
  integer) and piece class, \<^verbatim>\<open>attemptRotationSRS\<close> returns without failing and tries the
  candidates of \<open>kickOffsets\<close> in table order. When every candidate fails, the result is
  the original shape at the unchanged offsets with \<open>valid = false\<close> and \<open>newRotation\<close>
  equal to the rotation state before the attempt. When the table has no entry for the
  transition, the candidates are the single pair \<open>(0, 0)\<close>: the rotated shape is tested at
  the unchanged offsets and nowhere else.
\<close>

theorem attemptRotationSRS_spec:
  assumes "isBoard grid"
  shows "attemptRotationSRS grid shape offsetX offsetY dir currentRotation isIPiece =
           Inr (case find (\<lambda>(kickX, kickY).
                        isPositionValid grid (rotateShape shape dir)
                          (offsetX + kickX) (offsetY + kickY) = Inr True)
                      (kickOffsets isIPiece dir currentRotation) of
                  Some (kickX, kickY) \<Rightarrow>
                    \<lparr>rotated = rotateShape shape dir, x = offsetX + kickX, y = offsetY + kickY,
                     valid = True, newRotation = newRotationOf dir currentRotation\<rparr>
                | None \<Rightarrow>
                    \<lparr>rotated = shape, x = offsetX, y = offsetY, valid = False,
                     newRotation = currentRotation\<rparr>) \<and>
         ((\<forall>(kickX, kickY) \<in> set (kickOffsets isIPiece dir currentRotation).
              isPositionValid grid (rotateShape shape dir) (offsetX + kickX) (offsetY + kickY)
                \<noteq> Inr True) \<longrightarrow>
          attemptRotationSRS grid shape offsetX offsetY dir currentRotation isIPiece =
            Inr \<lparr>rotated = shape, x = offsetX, y = offsetY, valid = False,
                 newRotation = currentRotation\<rparr>) \<and>
         (map_of (kickData isIPiece) (transitionKey dir currentRotation) = None \<longrightarrow>
          kickOffsets isIPiece dir currentRotation = [(0, 0)] \<and>
          attemptRotationSRS grid shape offsetX offsetY dir currentRotation isIPiece =
            Inr (if isPositionValid grid (rotateShape shape dir) offsetX offsetY = Inr True
                 then \<lparr>rotated = rotateShape shape dir, x = offsetX, y = offsetY, valid = True,
                       newRotation = newRotationOf dir currentRotation\<rparr>
                 else \<lparr>rotated = shape, x = offsetX, y = offsetY, valid = False,
                       newRotation = currentRotation\<rparr>))"
proof -
  let ?P = "\<lambda>(kickX, kickY). isPositionValid grid (rotateShape shape dir)
              (offsetX + kickX) (offsetY + kickY) = Inr True"
  have main: "attemptRotationSRS grid shape offsetX offsetY dir currentRotation isIPiece =
           Inr (case find ?P (kickOffsets isIPiece dir currentRotation) of
                  Some (kickX, kickY) \<Rightarrow>
                    \<lparr>rotated = rotateShape shape dir, x = offsetX + kickX, y = offsetY + kickY,
                     valid = True, newRotation = newRotationOf dir currentRotation\<rparr>
                | None \<Rightarrow>
                    \<lparr>rotated = shape, x = offsetX, y = offsetY, valid = False,
                     newRotation = currentRotation\<rparr>)"
    unfolding attemptRotationSRS_def by (rule srsKickLoop_find [OF assms])
  have fail: "attemptRotationSRS grid shape offsetX offsetY dir currentRotation isIPiece =
            Inr \<lparr>rotated = shape, x = offsetX, y = offsetY, valid = False,
                 newRotation = currentRotation\<rparr>"
    if "\<forall>(kickX, kickY) \<in> set (kickOffsets isIPiece dir currentRotation).
              isPositionValid grid (rotateShape shape dir) (offsetX + kickX) (offsetY + kickY)
                \<noteq> Inr True"
  proof -
    have "find ?P (kickOffsets isIPiece dir currentRotation) = None"
      using that by (intro find_None_all_fail) auto
    then show ?thesis
      unfolding main by simp
  qed
  have none: "kickOffsets isIPiece dir currentRotation = [(0, 0)] \<and>
          attemptRotationSRS grid shape offsetX offsetY dir currentRotation isIPiece =
            Inr (if isPositionValid grid (rotateShape shape dir) offsetX offsetY = Inr True
                 then \<lparr>rotated = rotateShape shape dir, x = offsetX, y = offsetY, valid = True,
                       newRotation = newRotationOf dir currentRotation\<rparr>
                 else \<lparr>rotated = shape, x = offsetX, y = offsetY, valid = False,
                       newRotation = currentRotation\<rparr>)"
    if "map_of (kickData isIPiece) (transitionKey dir currentRotation) = None"
  proof -
    have k: "kickOffsets isIPiece dir currentRotation = [(0, 0)]"
      using that by (simp add: kickOffsets_def)
    show ?thesis
      unfolding main k by simp
  qed
  show ?thesis
    using main fail none by blast
qed

theorem attemptRotationSRS_spec_witness:
  "isBoard emptyBoard \<and>
   kickOffsets False clockwise 0 = [(0, 0), (-1, 0), (-1, 1), (0, -2), (-1, -2)] \<and>
   attemptRotationSRS emptyBoard T_PIECE 3 100 clockwise 0 False =
     Inr \<lparr>rotated = T_PIECE, x = 3, y = 100, valid = False, newRotation = 0\<rparr> \<and>
   map_of (kickData False) (transitionKey clockwise 4) = None \<and>
   kickOffsets False clockwise 4 = [(0, 0)] \<and>
   attemptRotationSRS emptyBoard T_PIECE 3 0 clockwise 4 False =
     Inr \<lparr>rotated = rotateShape T_PIECE clockwise, x = 3, y = 0, valid = True, newRotation = 1\<rparr> \<and>
   attemptRotationSRS emptyBoard T_PIECE 9 0 clockwise 4 False =
     Inr \<lparr>rotated = T_PIECE, x = 9, y = 0, valid = False, newRotation = 4\<rparr>"
proof -
  have k0: "kickOffsets False clockwise 0 = [(0, 0), (-1, 0), (-1, 1), (0, -2), (-1, -2)]"
    by code_simp
  have allfail: "\<forall>(kickX, kickY) \<in> set (kickOffsets False clockwise 0).
       isPositionValid emptyBoard (rotateShape T_PIECE clockwise) (3 + kickX) (100 + kickY) \<noteq> Inr True"
    unfolding k0 by code_simp
  have none: "map_of (kickData False) (transitionKey clockwise 4) = None"
    by code_simp
  have ok: "isPositionValid emptyBoard (rotateShape T_PIECE clockwise) 3 0 = Inr True"
    by code_simp
  have no: "isPositionValid emptyBoard (rotateShape T_PIECE clockwise) 9 0 \<noteq> Inr True"
    by code_simp
  have nr: "newRotationOf clockwise 4 = 1"
    by code_simp
  show ?thesis
    using isBoard_emptyBoard k0 allfail none ok no nr
      attemptRotationSRS_spec [OF isBoard_emptyBoard, of T_PIECE 3 100 clockwise 0 False]
      attemptRotationSRS_spec [OF isBoard_emptyBoard, of T_PIECE 3 0 clockwise 4 False]
      attemptRotationSRS_spec [OF isBoard_emptyBoard, of T_PIECE 9 0 clockwise 4 False]
    by simp
qed

section \<open>Properties of the line clear\<close>

lemma emptyRow_not_complete: "\<not> rowComplete emptyRow"
  by (simp add: rowComplete_def emptyRow_def GRID_WIDTH_def list_all_iff)

lemma length_emptyRow: "length emptyRow = GRID_WIDTH"
  by (simp add: emptyRow_def)

lemma clearLinesLoop_eq:
  assumes "- 1 \<le> row" "row < int (length grid)"
  shows "clearLinesLoop grid row clearedCount =
           Inr (clearedCount + length (filter rowComplete (take (nat (row + 1)) grid)),
                replicate (length (filter rowComplete (take (nat (row + 1)) grid))) emptyRow @
                filter (\<lambda>r. \<not> rowComplete r) (take (nat (row + 1)) grid) @
                drop (nat (row + 1)) grid)"
  using assms
proof (induction grid row clearedCount rule: clearLinesLoop.induct)
  case (1 grid row clearedCount)
  show ?case
  proof (cases "row \<ge> 0")
    case False
    with "1.prems" have "row = - 1" by simp
    then show ?thesis
      by (subst clearLinesLoop.simps) simp
  next
    case True
    then obtain r where row: "row = int r"
      using nonneg_int_cases by blast
    have r: "r < length grid"
      using "1.prems" row by simp
    have nr: "nat row = r" "nat (row + 1) = Suc r"
      by (simp_all add: row)
    have tk: "take (Suc r) grid = take r grid @ [grid ! r]"
      using r by (simp add: take_Suc_conv_app_nth)
    show ?thesis
    proof (cases "rowComplete (grid ! r)")
      case complete: True
      let ?grid' = "emptyRow # (take r grid @ drop (Suc r) grid)"
      have len: "length ?grid' = length grid"
        using r by simp
      have "clearLinesLoop (emptyRow # (take (nat row) grid @ drop (Suc (nat row)) grid))
              row (clearedCount + 1) =
           Inr (clearedCount + 1 +
                  length (filter rowComplete (take (nat (row + 1))
                    (emptyRow # (take (nat row) grid @ drop (Suc (nat row)) grid)))),
                replicate (length (filter rowComplete (take (nat (row + 1))
                    (emptyRow # (take (nat row) grid @ drop (Suc (nat row)) grid))))) emptyRow @
                filter (\<lambda>r. \<not> rowComplete r) (take (nat (row + 1))
                    (emptyRow # (take (nat row) grid @ drop (Suc (nat row)) grid))) @
                drop (nat (row + 1)) (emptyRow # (take (nat row) grid @ drop (Suc (nat row)) grid)))"
      proof (rule "1.IH"(1))
        show "0 \<le> row" by fact
        show "\<not> \<not> nat row < length grid" using r by (simp add: nr)
        show "rowComplete (grid ! nat row)" using complete by (simp add: nr)
        show "- 1 \<le> row" using True by simp
        show "row < int (length (emptyRow # take (nat row) grid @ drop (Suc (nat row)) grid))"
          using len r by (simp add: nr row)
      qed
      then have IH: "clearLinesLoop ?grid' row (clearedCount + 1) =
           Inr (clearedCount + 1 + length (filter rowComplete (take (Suc r) ?grid')),
                replicate (length (filter rowComplete (take (Suc r) ?grid'))) emptyRow @
                filter (\<lambda>r. \<not> rowComplete r) (take (Suc r) ?grid') @
                drop (Suc r) ?grid')"
        unfolding nr .
      have t': "take (Suc r) ?grid' = emptyRow # take r grid"
        using r by simp
      have d': "drop (Suc r) ?grid' = drop (Suc r) grid"
        using r by simp
      have step: "clearLinesLoop grid row clearedCount = clearLinesLoop ?grid' row (clearedCount + 1)"
        using True r complete by (subst clearLinesLoop.simps) (simp add: nr)
      show ?thesis
        unfolding step IH t' d' nr tk
        using complete by (simp add: emptyRow_not_complete replicate_app_Cons_same)
    next
      case incomplete: False
      have "clearLinesLoop grid (row - 1) clearedCount =
           Inr (clearedCount + length (filter rowComplete (take (nat (row - 1 + 1)) grid)),
                replicate (length (filter rowComplete (take (nat (row - 1 + 1)) grid))) emptyRow @
                filter (\<lambda>r. \<not> rowComplete r) (take (nat (row - 1 + 1)) grid) @
                drop (nat (row - 1 + 1)) grid)"
      proof (rule "1.IH"(2))
        show "0 \<le> row" by fact
        show "\<not> \<not> nat row < length grid" using r by (simp add: nr)
        show "\<not> rowComplete (grid ! nat row)" using incomplete by (simp add: nr)
        show "- 1 \<le> row - 1" using True by simp
        show "row - 1 < int (length grid)" using r by (simp add: row)
      qed
      then have IH: "clearLinesLoop grid (row - 1) clearedCount =
           Inr (clearedCount + length (filter rowComplete (take r grid)),
                replicate (length (filter rowComplete (take r grid))) emptyRow @
                filter (\<lambda>r. \<not> rowComplete r) (take r grid) @
                drop r grid)"
        by (simp add: nr)
      have step: "clearLinesLoop grid row clearedCount = clearLinesLoop grid (row - 1) clearedCount"
        using True r incomplete by (subst clearLinesLoop.simps) (simp add: nr)
      have dr: "drop r grid = grid ! r # drop (Suc r) grid"
        using r by (simp add: Cons_nth_drop_Suc)
      show ?thesis
        unfolding step IH nr tk dr
        using incomplete by simp
    qed
  qed
qed

lemma clearLines_eq:
  assumes "length grid = GRID_HEIGHT"
  shows "clearLines grid =
           Inr (length (filter rowComplete grid),
                replicate (length (filter rowComplete grid)) emptyRow @
                filter (\<lambda>r. \<not> rowComplete r) grid)"
proof -
  have "clearLines grid = clearLinesLoop grid (int (length grid) - 1) 0"
    by (simp add: clearLines_def assms)
  also have "\<dots> = Inr (0 + length (filter rowComplete (take (nat (int (length grid) - 1 + 1)) grid)),
                replicate (length (filter rowComplete (take (nat (int (length grid) - 1 + 1)) grid))) emptyRow @
                filter (\<lambda>r. \<not> rowComplete r) (take (nat (int (length grid) - 1 + 1)) grid) @
                drop (nat (int (length grid) - 1 + 1)) grid)"
    by (rule clearLinesLoop_eq) simp_all
  finally show ?thesis by simp
qed

lemma filter_nth_upt:
  "map (\<lambda>i. xs ! i) (filter (\<lambda>i. P (xs ! i)) [0..<length xs]) = filter P xs"
proof -
  have "filter P xs = filter P (map (\<lambda>i. xs ! i) [0..<length xs])"
    by (simp add: map_nth)
  then show ?thesis
    by (simp add: filter_map comp_def)
qed

lemma clearLinesOptimized_eq:
  assumes "length grid = GRID_HEIGHT"
  shows "clearLinesOptimized grid =
           Inr (length (filter rowComplete grid),
                replicate (length (filter rowComplete grid)) emptyRow @
                filter (\<lambda>r. \<not> rowComplete r) grid)"
proof -
  let ?completed = "filter (\<lambda>row. rowComplete (grid ! row)) [0..<length grid]"
  have n: "length ?completed = length (filter rowComplete grid)"
    using filter_nth_upt [of grid rowComplete, THEN arg_cong, of length] by simp
  have "filter (\<lambda>row. row \<notin> set ?completed) [0..<length grid] =
        filter (\<lambda>row. \<not> rowComplete (grid ! row)) [0..<length grid]"
    by (rule filter_cong) auto
  then have rem: "map (\<lambda>row. grid ! row) (filter (\<lambda>row. row \<notin> set ?completed) [0..<length grid]) =
        filter (\<lambda>r. \<not> rowComplete r) grid"
    using filter_nth_upt [of grid "\<lambda>r. \<not> rowComplete r"] by simp
  have unf: "clearLinesOptimized grid =
      (if length ?completed = 0 then Inr (0, grid)
       else Inr (length ?completed,
                 replicate (length ?completed) emptyRow @
                 map (\<lambda>row. grid ! row)
                   (filter (\<lambda>row. row \<notin> set ?completed) [0..<length grid])))"
    unfolding clearLinesOptimized_def Let_def assms [symmetric] by simp
  show ?thesis
  proof (cases "length (filter rowComplete grid) = 0")
    case True
    then have "filter (\<lambda>r. \<not> rowComplete r) grid = grid"
      by (simp add: filter_empty_conv)
    with True show ?thesis
      unfolding unf n by simp
  next
    case False
    then show ?thesis
      unfolding unf n rem by simp
  qed
qed

lemma isBoard_cleared:
  assumes "isBoard grid"
  shows "isBoard (replicate (length (filter rowComplete grid)) emptyRow @
                  filter (\<lambda>r. \<not> rowComplete r) grid)"
proof -
  have "length (filter rowComplete grid) + length (filter (\<lambda>r. \<not> rowComplete r) grid) = length grid"
    by (rule sum_length_filter_compl)
  then show ?thesis
    using assms by (auto simp: isBoard_def list_all_iff length_emptyRow)
qed

section \<open>Properties of the merge\<close>

lemma isBoard_writeCell:
  assumes "isBoard grid" "r < GRID_HEIGHT" "c < GRID_WIDTH"
  shows "isBoard (writeCell grid r c v)"
proof -
  have "length (grid ! r) = GRID_WIDTH"
    using assms by (simp add: isBoard_row_length)
  then have "length (js_set (grid ! r) c v) = GRID_WIDTH"
    using assms(3) by (simp add: js_set_def)
  then show ?thesis
    using assms(1) by (auto simp: isBoard_def writeCell_def list_all_iff dest: set_update_subset_insert [THEN subsetD])
qed

lemma board_writeCell_nth:
  assumes "isBoard grid" "r < GRID_HEIGHT" "c < GRID_WIDTH"
  shows "writeCell grid r c v ! r' ! c' = (if r' = r \<and> c' = c then v else grid ! r' ! c')"
  using assms by (intro writeCell_nth) (simp_all add: isBoard_length isBoard_row_length)

lemma mergeCells_board:
  assumes "isBoard grid"
  shows "\<exists>grid'. mergeCells grid cells offsetX offsetY shapeY shapeX = Inr grid' \<and> isBoard grid' \<and>
           (\<forall>r<GRID_HEIGHT. \<forall>c<GRID_WIDTH.
              grid' ! r ! c =
                (if int r = offsetY + int shapeY \<and> offsetX + int shapeX \<le> int c \<and>
                    nat (int c - offsetX - int shapeX) < length cells \<and>
                    cells ! nat (int c - offsetX - int shapeX) \<noteq> Some 0
                 then cells ! nat (int c - offsetX - int shapeX)
                 else grid ! r ! c))"
  using assms
proof (induction cells arbitrary: grid shapeX)
  case Nil
  then show ?case by simp
next
  case (Cons cellValue cells)
  let ?gx = "offsetX + int shapeX"
  let ?gy = "offsetY + int shapeY"
  let ?inb = "?gy \<ge> 0 \<and> ?gy < int GRID_HEIGHT \<and> ?gx \<ge> 0 \<and> ?gx < int GRID_WIDTH"
  have idx: "nat (int c - offsetX - int shapeX) = Suc (nat (int c - offsetX - int (Suc shapeX)))"
    if "offsetX + int (Suc shapeX) \<le> int c" for c
    using that by simp
  have nth0: "(cellValue # cells) ! nat (int c - offsetX - int shapeX) = cellValue"
    if "int c = ?gx" for c
    using that by simp
  have nthS: "(cellValue # cells) ! nat (int c - offsetX - int shapeX) =
              cells ! nat (int c - offsetX - int (Suc shapeX))"
    if "offsetX + int (Suc shapeX) \<le> int c" for c
    using idx [OF that] by simp
  show ?case
  proof (cases "cellValue \<noteq> Some 0 \<and> ?inb")
    case True
    let ?g1 = "writeCell grid (nat ?gy) (nat ?gx) cellValue"
    have b: "nat ?gy < GRID_HEIGHT" "nat ?gx < GRID_WIDTH"
      using True by linarith+
    have g1: "isBoard ?g1"
      using Cons.prems b by (rule isBoard_writeCell)
    obtain grid' where g':
      "mergeCells ?g1 cells offsetX offsetY shapeY (Suc shapeX) = Inr grid'" "isBoard grid'"
      "\<forall>r<GRID_HEIGHT. \<forall>c<GRID_WIDTH.
              grid' ! r ! c =
                (if int r = offsetY + int shapeY \<and> offsetX + int (Suc shapeX) \<le> int c \<and>
                    nat (int c - offsetX - int (Suc shapeX)) < length cells \<and>
                    cells ! nat (int c - offsetX - int (Suc shapeX)) \<noteq> Some 0
                 then cells ! nat (int c - offsetX - int (Suc shapeX))
                 else ?g1 ! r ! c)"
      using Cons.IH [OF g1, of "Suc shapeX"] by blast
    have step: "mergeCells grid (cellValue # cells) offsetX offsetY shapeY shapeX = Inr grid'"
      using True b g'(1) Cons.prems by (simp add: Let_def isBoard_length)
    have cells: "grid' ! r ! c =
                (if int r = ?gy \<and> ?gx \<le> int c \<and>
                    nat (int c - offsetX - int shapeX) < length (cellValue # cells) \<and>
                    (cellValue # cells) ! nat (int c - offsetX - int shapeX) \<noteq> Some 0
                 then (cellValue # cells) ! nat (int c - offsetX - int shapeX)
                 else grid ! r ! c)"
      if rc: "r < GRID_HEIGHT" "c < GRID_WIDTH" for r c
    proof (cases "int c = ?gx")
      case here: True
      then have nl: "\<not> offsetX + int (Suc shapeX) \<le> int c" by simp
      have "grid' ! r ! c = ?g1 ! r ! c"
        using g'(3) rc nl by simp
      also have "\<dots> = (if r = nat ?gy \<and> c = nat ?gx then cellValue else grid ! r ! c)"
        using Cons.prems b by (rule board_writeCell_nth)
      finally show ?thesis
        using here True nth0 [OF here] by auto
    next
      case nothere: False
      have w: "?g1 ! r ! c = grid ! r ! c"
        using board_writeCell_nth [OF Cons.prems b, of cellValue r c] nothere True by auto
      show ?thesis
      proof (cases "offsetX + int (Suc shapeX) \<le> int c")
        case True
        then show ?thesis
          using g'(3) rc w nthS [OF True] idx [OF True] by simp
      next
        case False
        with nothere have "\<not> ?gx \<le> int c" by simp
        then show ?thesis
          using g'(3) rc w False by simp
      qed
    qed
    show ?thesis
      using step g'(2) cells by blast
  next
    case False
    obtain grid' where g':
      "mergeCells grid cells offsetX offsetY shapeY (Suc shapeX) = Inr grid'" "isBoard grid'"
      "\<forall>r<GRID_HEIGHT. \<forall>c<GRID_WIDTH.
              grid' ! r ! c =
                (if int r = offsetY + int shapeY \<and> offsetX + int (Suc shapeX) \<le> int c \<and>
                    nat (int c - offsetX - int (Suc shapeX)) < length cells \<and>
                    cells ! nat (int c - offsetX - int (Suc shapeX)) \<noteq> Some 0
                 then cells ! nat (int c - offsetX - int (Suc shapeX))
                 else grid ! r ! c)"
      using Cons.IH [OF Cons.prems, of "Suc shapeX"] by blast
    have step: "mergeCells grid (cellValue # cells) offsetX offsetY shapeY shapeX = Inr grid'"
      using False g'(1) by (auto simp: Let_def)
    have cells: "grid' ! r ! c =
                (if int r = ?gy \<and> ?gx \<le> int c \<and>
                    nat (int c - offsetX - int shapeX) < length (cellValue # cells) \<and>
                    (cellValue # cells) ! nat (int c - offsetX - int shapeX) \<noteq> Some 0
                 then (cellValue # cells) ! nat (int c - offsetX - int shapeX)
                 else grid ! r ! c)"
      if rc: "r < GRID_HEIGHT" "c < GRID_WIDTH" for r c
    proof (cases "int c = ?gx")
      case here: True
      then have nl: "\<not> offsetX + int (Suc shapeX) \<le> int c" by simp
      have "grid' ! r ! c = grid ! r ! c"
        using g'(3) rc nl by simp
      moreover have "\<not> (int r = ?gy \<and> cellValue \<noteq> Some 0)"
        using False here rc by auto
      ultimately show ?thesis
        using here nth0 [OF here] by auto
    next
      case nothere: False
      show ?thesis
      proof (cases "offsetX + int (Suc shapeX) \<le> int c")
        case True
        then show ?thesis
          using g'(3) rc nthS [OF True] idx [OF True] by simp
      next
        case False
        with nothere have "\<not> ?gx \<le> int c" by simp
        then show ?thesis
          using g'(3) rc False by simp
      qed
    qed
    show ?thesis
      using step g'(2) cells by blast
  qed
qed

lemma occupied_Cons_0: "occupied (row # rows) 0 j \<longleftrightarrow> j < length row \<and> row ! j \<noteq> Some 0"
  by (simp add: occupied_def)

lemma occupied_Cons_Suc: "occupied (row # rows) (Suc i) j \<longleftrightarrow> occupied rows i j"
  by (simp add: occupied_def)

lemma mergeRows_board:
  assumes "isBoard grid"
  shows "\<exists>grid'. mergeRows grid rows offsetX offsetY shapeY = Inr grid' \<and> isBoard grid' \<and>
           (\<forall>r<GRID_HEIGHT. \<forall>c<GRID_WIDTH.
              grid' ! r ! c =
                (if offsetY + int shapeY \<le> int r \<and> offsetX \<le> int c \<and>
                    occupied rows (nat (int r - offsetY - int shapeY)) (nat (int c - offsetX))
                 then rows ! nat (int r - offsetY - int shapeY) ! nat (int c - offsetX)
                 else grid ! r ! c))"
  using assms
proof (induction rows arbitrary: grid shapeY)
  case Nil
  then show ?case by (simp add: occupied_def)
next
  case (Cons row rows)
  obtain g1 where g1:
    "mergeCells grid row offsetX offsetY shapeY 0 = Inr g1" "isBoard g1"
    "\<forall>r<GRID_HEIGHT. \<forall>c<GRID_WIDTH.
        g1 ! r ! c =
          (if int r = offsetY + int shapeY \<and> offsetX \<le> int c \<and>
              nat (int c - offsetX) < length row \<and> row ! nat (int c - offsetX) \<noteq> Some 0
           then row ! nat (int c - offsetX)
           else grid ! r ! c)"
    using mergeCells_board [OF Cons.prems, of row offsetX offsetY shapeY 0] by auto
  obtain grid' where g':
    "mergeRows g1 rows offsetX offsetY (Suc shapeY) = Inr grid'" "isBoard grid'"
    "\<forall>r<GRID_HEIGHT. \<forall>c<GRID_WIDTH.
        grid' ! r ! c =
          (if offsetY + int (Suc shapeY) \<le> int r \<and> offsetX \<le> int c \<and>
              occupied rows (nat (int r - offsetY - int (Suc shapeY))) (nat (int c - offsetX))
           then rows ! nat (int r - offsetY - int (Suc shapeY)) ! nat (int c - offsetX)
           else g1 ! r ! c)"
    using Cons.IH [OF g1(2), of "Suc shapeY"] by blast
  have step: "mergeRows grid (row # rows) offsetX offsetY shapeY = Inr grid'"
    using g1(1) g'(1) by simp
  have cells: "grid' ! r ! c =
                (if offsetY + int shapeY \<le> int r \<and> offsetX \<le> int c \<and>
                    occupied (row # rows) (nat (int r - offsetY - int shapeY)) (nat (int c - offsetX))
                 then (row # rows) ! nat (int r - offsetY - int shapeY) ! nat (int c - offsetX)
                 else grid ! r ! c)"
    if rc: "r < GRID_HEIGHT" "c < GRID_WIDTH" for r c
  proof (cases "int r = offsetY + int shapeY")
    case here: True
    then have z: "nat (int r - offsetY - int shapeY) = 0" by simp
    have "grid' ! r ! c = g1 ! r ! c"
      using g'(3) rc here by simp
    then show ?thesis
      using g1(3) rc here unfolding z occupied_Cons_0 by simp
  next
    case nothere: False
    have w: "g1 ! r ! c = grid ! r ! c"
      using g1(3) rc nothere by simp
    show ?thesis
    proof (cases "offsetY + int (Suc shapeY) \<le> int r")
      case True
      then have s: "nat (int r - offsetY - int shapeY) = Suc (nat (int r - offsetY - int (Suc shapeY)))"
        by simp
      show ?thesis
        using g'(3) rc w True unfolding s occupied_Cons_Suc by simp
    next
      case False
      with nothere have "\<not> offsetY + int shapeY \<le> int r" by simp
      then show ?thesis
        using g'(3) rc w False by simp
    qed
  qed
  show ?case
    using step g'(2) cells by blast
qed

lemma board_eqI:
  assumes "isBoard g" "isBoard h"
    and "\<And>r c. r < GRID_HEIGHT \<Longrightarrow> c < GRID_WIDTH \<Longrightarrow> g ! r ! c = h ! r ! c"
  shows "g = h"
proof (rule nth_equalityI)
  show "length g = length h"
    using assms(1,2) by (simp add: isBoard_length)
next
  fix r assume "r < length g"
  then have r: "r < GRID_HEIGHT"
    using assms(1) by (simp add: isBoard_length)
  show "g ! r = h ! r"
  proof (rule nth_equalityI)
    show "length (g ! r) = length (h ! r)"
      using assms(1,2) r by (simp add: isBoard_row_length)
  next
    fix c assume "c < length (g ! r)"
    then have "c < GRID_WIDTH"
      using assms(1) r by (simp add: isBoard_row_length)
    then show "g ! r ! c = h ! r ! c"
      using assms(3) r by simp
  qed
qed

lemma mergePiece_board:
  assumes "isBoard grid"
  shows "\<exists>merged. mergePiece grid shape offsetX offsetY = Inr merged \<and> isBoard merged \<and>
           (\<forall>r<GRID_HEIGHT. \<forall>c<GRID_WIDTH.
              merged ! r ! c =
                (if offsetY \<le> int r \<and> offsetX \<le> int c \<and>
                    occupied shape (nat (int r - offsetY)) (nat (int c - offsetX))
                 then shape ! nat (int r - offsetY) ! nat (int c - offsetX)
                 else grid ! r ! c))"
  using mergeRows_board [OF assms, of shape offsetX offsetY 0]
  unfolding mergePiece_def of_nat_0 diff_zero add_0_right .

lemma lockPiece_merged:
  assumes "isBoard merged" "mergePiece grid shape offsetX offsetY = Inr merged"
  shows "lockPiece grid shape offsetX offsetY =
           Inr (\<lparr>linesCleared = length (filter rowComplete merged)\<rparr>,
                replicate (length (filter rowComplete merged)) emptyRow @
                filter (\<lambda>r. \<not> rowComplete r) merged)"
  using assms by (simp add: lockPiece_def clearLines_eq isBoard_length)

section \<open>Claims about the lock and the line clear\<close>

text \<open>
  C3. On every board (20 rows of 10 cells) the bottom-up loop of \<^verbatim>\<open>clearLines\<close> and the
  one-pass \<^verbatim>\<open>clearLinesOptimized\<close> return the same count and leave the same grid: the
  count is the number of complete rows of the grid before the call, and the grid is that
  many empty rows followed by the rows that were not complete, in their original order.
\<close>

theorem clearLines_equivalence:
  assumes "isBoard grid"
  shows "clearLines grid = clearLinesOptimized grid \<and>
         clearLines grid =
           Inr (length (filter rowComplete grid),
                replicate (length (filter rowComplete grid)) emptyRow @
                filter (\<lambda>row. \<not> rowComplete row) grid)"
  using assms by (simp add: clearLines_eq clearLinesOptimized_eq isBoard_length)

theorem clearLines_equivalence_witness:
  "isBoard (replicate 17 emptyRow @
            [replicate 10 (Some 2), (replicate 10 (Some 3))[5 := Some 0], replicate 10 (Some 1)]) \<and>
   clearLines (replicate 17 emptyRow @
            [replicate 10 (Some 2), (replicate 10 (Some 3))[5 := Some 0], replicate 10 (Some 1)]) =
     Inr (2, replicate 19 emptyRow @ [(replicate 10 (Some 3))[5 := Some 0]]) \<and>
   clearLinesOptimized (replicate 17 emptyRow @
            [replicate 10 (Some 2), (replicate 10 (Some 3))[5 := Some 0], replicate 10 (Some 1)]) =
     Inr (2, replicate 19 emptyRow @ [(replicate 10 (Some 3))[5 := Some 0]])"
proof -
  let ?g = "replicate 17 emptyRow @
            [replicate 10 (Some 2), (replicate 10 (Some 3))[5 := Some 0], replicate 10 (Some 1)]"
  have b: "isBoard ?g"
    by code_simp
  have v1: "length (filter rowComplete ?g) = 2"
    by code_simp
  have v2: "filter (\<lambda>row. \<not> rowComplete row) ?g =
            replicate 17 emptyRow @ [(replicate 10 (Some 3))[5 := Some 0]]"
    by code_simp
  have v3: "replicate 2 emptyRow @ replicate 17 emptyRow @ [(replicate 10 (Some 3))[5 := Some 0]] =
            replicate 19 emptyRow @ [(replicate 10 (Some 3))[5 := Some 0]]"
    by code_simp
  have e: "clearLines ?g = clearLinesOptimized ?g"
    and c: "clearLines ?g = Inr (2, replicate 19 emptyRow @ [(replicate 10 (Some 3))[5 := Some 0]])"
    using clearLines_equivalence [OF b, unfolded v1 v2 v3] by blast+
  have o: "clearLinesOptimized ?g =
             Inr (2, replicate 19 emptyRow @ [(replicate 10 (Some 3))[5 := Some 0]])"
    unfolding e [symmetric] by (rule c)
  show ?thesis
    using b c o by blast
qed

text \<open>
  C4, as the code has it. On every board, for every shape and offsets, the merge of
  \<^verbatim>\<open>lockPiece\<close> never fails and leaves a board: a cell of the board takes the value of the
  occupied shape cell that maps onto it, and every other cell keeps its value; occupied
  cells that map outside the board are dropped. \<^verbatim>\<open>lockPiece\<close> then returns the number of
  complete rows of the merged grid and leaves the grid cleared of them. When no occupied
  cell is in range the merge changes nothing; the call clears nothing and returns 0
  provided the grid had no complete row before the call.
\<close>

theorem lockPiece_merge_spec:
  assumes "isBoard grid"
  shows "\<exists>merged.
           mergePiece grid shape offsetX offsetY = Inr merged \<and> isBoard merged \<and>
           (\<forall>r<GRID_HEIGHT. \<forall>c<GRID_WIDTH.
              merged ! r ! c =
                (if offsetY \<le> int r \<and> offsetX \<le> int c \<and>
                    occupied shape (nat (int r - offsetY)) (nat (int c - offsetX))
                 then shape ! nat (int r - offsetY) ! nat (int c - offsetX)
                 else grid ! r ! c)) \<and>
           lockPiece grid shape offsetX offsetY =
             Inr (\<lparr>linesCleared = length (filter rowComplete merged)\<rparr>,
                  replicate (length (filter rowComplete merged)) emptyRow @
                  filter (\<lambda>row. \<not> rowComplete row) merged) \<and>
           ((\<forall>shapeY shapeX. occupied shape shapeY shapeX \<longrightarrow>
                outOfBounds (offsetX + int shapeX) (offsetY + int shapeY)) \<longrightarrow>
            merged = grid \<and>
            (filter rowComplete grid = [] \<longrightarrow>
             lockPiece grid shape offsetX offsetY = Inr (\<lparr>linesCleared = 0\<rparr>, grid)))"
proof -
  obtain merged where m:
    "mergePiece grid shape offsetX offsetY = Inr merged" "isBoard merged"
    "\<forall>r<GRID_HEIGHT. \<forall>c<GRID_WIDTH.
              merged ! r ! c =
                (if offsetY \<le> int r \<and> offsetX \<le> int c \<and>
                    occupied shape (nat (int r - offsetY)) (nat (int c - offsetX))
                 then shape ! nat (int r - offsetY) ! nat (int c - offsetX)
                 else grid ! r ! c)"
    using mergePiece_board [OF assms] by blast
  have lock: "lockPiece grid shape offsetX offsetY =
             Inr (\<lparr>linesCleared = length (filter rowComplete merged)\<rparr>,
                  replicate (length (filter rowComplete merged)) emptyRow @
                  filter (\<lambda>row. \<not> rowComplete row) merged)"
    using m(2,1) by (rule lockPiece_merged)
  have same: "merged = grid"
    if none: "\<forall>shapeY shapeX. occupied shape shapeY shapeX \<longrightarrow>
                outOfBounds (offsetX + int shapeX) (offsetY + int shapeY)"
  proof (rule board_eqI [OF m(2) assms])
    fix r c assume rc: "r < GRID_HEIGHT" "c < GRID_WIDTH"
    let ?cond = "offsetY \<le> int r \<and> offsetX \<le> int c \<and>
              occupied shape (nat (int r - offsetY)) (nat (int c - offsetX))"
    have eq: "merged ! r ! c =
                (if ?cond then shape ! nat (int r - offsetY) ! nat (int c - offsetX)
                 else grid ! r ! c)"
      using m(3) rc by blast
    have "\<not> ?cond"
    proof
      assume a: "offsetY \<le> int r \<and> offsetX \<le> int c \<and>
              occupied shape (nat (int r - offsetY)) (nat (int c - offsetX))"
      then have "outOfBounds (offsetX + int (nat (int c - offsetX))) (offsetY + int (nat (int r - offsetY)))"
        using none by blast
      moreover have "offsetX + int (nat (int c - offsetX)) = int c"
        "offsetY + int (nat (int r - offsetY)) = int r"
        using a by simp_all
      ultimately show False
        using rc by (simp add: outOfBounds_def)
    qed
    then show "merged ! r ! c = grid ! r ! c"
      unfolding eq by (simp only: if_False)
  qed
  have zero: "lockPiece grid shape offsetX offsetY = Inr (\<lparr>linesCleared = 0\<rparr>, grid)"
    if "merged = grid" "filter rowComplete grid = []"
  proof -
    have "filter (\<lambda>row. \<not> rowComplete row) grid = grid"
      using that(2) by (simp add: filter_empty_conv)
    then show ?thesis
      using lock that by simp
  qed
  show ?thesis
    using m lock same zero by blast
qed

theorem lockPiece_merge_spec_witness:
  "isBoard emptyBoard \<and>
   mergePiece emptyBoard O_PIECE 8 17 =
     Inr (replicate 18 emptyRow @
          [replicate 9 (Some 0) @ [Some 2], replicate 9 (Some 0) @ [Some 2]]) \<and>
   lockPiece emptyBoard O_PIECE 8 17 =
     Inr (\<lparr>linesCleared = 0\<rparr>,
          replicate 18 emptyRow @
          [replicate 9 (Some 0) @ [Some 2], replicate 9 (Some 0) @ [Some 2]]) \<and>
   \<not> (\<exists>shapeY shapeX. occupied O_PIECE shapeY shapeX \<and>
          \<not> outOfBounds (4 + int shapeX) (- 4 + int shapeY)) \<and>
   filter rowComplete emptyBoard = [] \<and>
   lockPiece emptyBoard O_PIECE 4 (- 4) = Inr (\<lparr>linesCleared = 0\<rparr>, emptyBoard)"
proof -
  let ?m = "replicate 18 emptyRow @
          [replicate 9 (Some 0) @ [Some 2], replicate 9 (Some 0) @ [Some 2]]"
  have mp: "mergePiece emptyBoard O_PIECE 8 17 = Inr ?m"
    by code_simp
  have cl1: "length (filter rowComplete ?m) = 0"
    by code_simp
  have cl2: "filter (\<lambda>row. \<not> rowComplete row) ?m = ?m"
    by code_simp
  have out: "\<forall>shapeY shapeX. occupied O_PIECE shapeY shapeX \<longrightarrow>
                outOfBounds (4 + int shapeX) (- 4 + int shapeY)"
    by (auto simp: occupied_def O_PIECE_def outOfBounds_def)
  have nofull: "filter rowComplete emptyBoard = []"
    by code_simp
  obtain merged where a: "mergePiece emptyBoard O_PIECE 8 17 = Inr merged"
    and l: "lockPiece emptyBoard O_PIECE 8 17 =
             Inr (\<lparr>linesCleared = length (filter rowComplete merged)\<rparr>,
                  replicate (length (filter rowComplete merged)) emptyRow @
                  filter (\<lambda>row. \<not> rowComplete row) merged)"
    using lockPiece_merge_spec [OF isBoard_emptyBoard, of O_PIECE 8 17] by blast
  have me: "merged = ?m"
    using a mp by simp
  have l1: "lockPiece emptyBoard O_PIECE 8 17 = Inr (\<lparr>linesCleared = 0\<rparr>, ?m)"
    using l unfolding me cl1 cl2 by simp
  from lockPiece_merge_spec [OF isBoard_emptyBoard, of O_PIECE 4 "- 4"] out nofull
  have l2: "lockPiece emptyBoard O_PIECE 4 (- 4) = Inr (\<lparr>linesCleared = 0\<rparr>, emptyBoard)"
    by blast
  show ?thesis
    using isBoard_emptyBoard mp l1 l2 out nofull by blast
qed

text \<open>
  The claim as the specification states it fails on a board that already has a complete
  row. The O piece locked at row offset \<open>-4\<close> has its occupied cells in the rows \<open>-3\<close> and
  \<open>-2\<close>, so none of them is in range and the merge leaves the grid as it is; the call
  still clears the complete bottom row and returns 1.
\<close>

theorem lockPiece_degenerate_counterexample:
  "isBoard (replicate 19 emptyRow @ [replicate 10 (Some 1)]) \<and>
   mergePiece (replicate 19 emptyRow @ [replicate 10 (Some 1)]) O_PIECE 4 (- 4) =
     Inr (replicate 19 emptyRow @ [replicate 10 (Some 1)]) \<and>
   lockPiece (replicate 19 emptyRow @ [replicate 10 (Some 1)]) O_PIECE 4 (- 4) =
     Inr (\<lparr>linesCleared = 1\<rparr>, emptyBoard)"
proof -
  have b: "isBoard (replicate 19 emptyRow @ [replicate 10 (Some 1)])"
    by code_simp
  have m: "mergePiece (replicate 19 emptyRow @ [replicate 10 (Some 1)]) O_PIECE 4 (- 4) =
     Inr (replicate 19 emptyRow @ [replicate 10 (Some 1)])"
    by code_simp
  have l: "lockPiece (replicate 19 emptyRow @ [replicate 10 (Some 1)]) O_PIECE 4 (- 4) =
     Inr (\<lparr>linesCleared = 1\<rparr>, emptyBoard)"
    by code_simp
  show ?thesis
    using b m l by blast
qed

text \<open>
  C10. \<^verbatim>\<open>lockPiece\<close>, \<^verbatim>\<open>clearLines\<close> and \<^verbatim>\<open>clearLinesOptimized\<close> keep the dimensions of
  the board: called on a grid of exactly 20 rows of exactly 10 cells, each of them
  returns without failing and leaves a grid of exactly 20 rows of exactly 10 cells.
\<close>

theorem board_dimensions_preserved:
  assumes "isBoard grid"
  shows "(\<exists>result grid'. lockPiece grid shape offsetX offsetY = Inr (result, grid') \<and> isBoard grid') \<and>
         (\<exists>n grid'. clearLines grid = Inr (n, grid') \<and> isBoard grid') \<and>
         (\<exists>n grid'. clearLinesOptimized grid = Inr (n, grid') \<and> isBoard grid')"
proof -
  obtain merged where m: "mergePiece grid shape offsetX offsetY = Inr merged" "isBoard merged"
    using mergePiece_board [OF assms] by blast
  have "\<exists>result grid'. lockPiece grid shape offsetX offsetY = Inr (result, grid') \<and> isBoard grid'"
    using lockPiece_merged [OF m(2,1)] isBoard_cleared [OF m(2)] by blast
  moreover have "\<exists>n grid'. clearLines grid = Inr (n, grid') \<and> isBoard grid'"
    using clearLines_eq [of grid] isBoard_cleared [OF assms] assms by (simp add: isBoard_length)
  moreover have "\<exists>n grid'. clearLinesOptimized grid = Inr (n, grid') \<and> isBoard grid'"
    using clearLinesOptimized_eq [of grid] isBoard_cleared [OF assms] assms by (simp add: isBoard_length)
  ultimately show ?thesis by blast
qed

theorem board_dimensions_preserved_witness:
  "isBoard (replicate 19 emptyRow @ [(replicate 10 (Some 1))[1 := Some 0]]) \<and>
   lockPiece (replicate 19 emptyRow @ [(replicate 10 (Some 1))[1 := Some 0]]) T_PIECE 0 17 =
     Inr (\<lparr>linesCleared = 1\<rparr>,
          replicate 19 emptyRow @ [[Some 0, Some 3, Some 0, Some 0, Some 0, Some 0, Some 0, Some 0, Some 0, Some 0]]) \<and>
   (\<exists>result grid'.
      lockPiece (replicate 19 emptyRow @ [(replicate 10 (Some 1))[1 := Some 0]]) T_PIECE 0 17 =
        Inr (result, grid') \<and> isBoard grid') \<and>
   (\<exists>n grid'. clearLines (replicate 19 emptyRow @ [(replicate 10 (Some 1))[1 := Some 0]]) =
        Inr (n, grid') \<and> isBoard grid') \<and>
   (\<exists>n grid'. clearLinesOptimized (replicate 19 emptyRow @ [(replicate 10 (Some 1))[1 := Some 0]]) =
        Inr (n, grid') \<and> isBoard grid')"
proof -
  let ?g = "replicate 19 emptyRow @ [(replicate 10 (Some 1))[1 := Some 0]]"
  have b: "isBoard ?g"
    by code_simp
  have l: "lockPiece ?g T_PIECE 0 17 =
     Inr (\<lparr>linesCleared = 1\<rparr>,
          replicate 19 emptyRow @ [[Some 0, Some 3, Some 0, Some 0, Some 0, Some 0, Some 0, Some 0, Some 0, Some 0]])"
    by code_simp
  show ?thesis
    using b l board_dimensions_preserved [OF b, of T_PIECE 0 17] by blast
qed

section \<open>Properties of the score manager\<close>

lemma ScoreManager_clearLines_step:
  assumes table: "\<forall>c bonus. scoreTable (config this) c = Some bonus \<longrightarrow> 0 \<le> bonus"
    and lpl: "0 < linesPerLevel (config this)"
    and count: "0 \<le> count"
    and inv: "level this = initialLevel (config this) +
                \<lfloor>real_of_int (totalLinesCleared this) / real_of_int (linesPerLevel (config this))\<rfloor>"
  shows "\<exists>this'. ScoreManager_clearLines this count = Some this' \<and>
           config this' = config this \<and>
           score this \<le> score this' \<and>
           totalLinesCleared this' = totalLinesCleared this + count \<and>
           totalLinesCleared this \<le> totalLinesCleared this' \<and>
           level this \<le> level this' \<and>
           level this' = initialLevel (config this) +
                \<lfloor>real_of_int (totalLinesCleared this') / real_of_int (linesPerLevel (config this))\<rfloor>"
proof -
  have s: "score this \<le> (case scoreTable (config this) count of
                      Some bonus \<Rightarrow> score this + bonus
                    | None \<Rightarrow> score this)"
    using table by (cases "scoreTable (config this) count") auto
  have "totalLinesCleared this div linesPerLevel (config this) \<le>
        (totalLinesCleared this + count) div linesPerLevel (config this)"
    using count lpl by (intro zdiv_mono1) simp_all
  then have l: "level this \<le> initialLevel (config this) +
                \<lfloor>real_of_int (totalLinesCleared this + count) /
                 real_of_int (linesPerLevel (config this))\<rfloor>"
    unfolding inv floor_divide_of_int_eq by simp
  show ?thesis
    using s l lpl count by (simp add: ScoreManager_clearLines_def Let_def)
qed


lemma clearLinesCalls_trace:
  assumes table: "\<forall>c bonus. scoreTable (config this) c = Some bonus \<longrightarrow> 0 \<le> bonus"
    and lpl: "0 < linesPerLevel (config this)"
    and counts: "\<forall>count\<in>set counts. 0 \<le> count"
    and inv: "level this = initialLevel (config this) +
                \<lfloor>real_of_int (totalLinesCleared this) / real_of_int (linesPerLevel (config this))\<rfloor>"
  shows "\<exists>states. clearLinesCalls this counts = Some states \<and> length states = length counts \<and>
           (\<forall>i<length counts.
              config (states ! i) = config this \<and>
              score ((this # states) ! i) \<le> score (states ! i) \<and>
              totalLinesCleared (states ! i) = totalLinesCleared ((this # states) ! i) + counts ! i \<and>
              totalLinesCleared ((this # states) ! i) \<le> totalLinesCleared (states ! i) \<and>
              level ((this # states) ! i) \<le> level (states ! i) \<and>
              level (states ! i) = initialLevel (config this) +
                \<lfloor>real_of_int (totalLinesCleared (states ! i)) /
                 real_of_int (linesPerLevel (config this))\<rfloor>)"
  using assms
proof (induction counts arbitrary: this)
  case Nil
  then show ?case by simp
next
  case (Cons count counts)
  obtain this' where step:
    "ScoreManager_clearLines this count = Some this'"
    "config this' = config this"
    "score this \<le> score this'"
    "totalLinesCleared this' = totalLinesCleared this + count"
    "totalLinesCleared this \<le> totalLinesCleared this'"
    "level this \<le> level this'"
    "level this' = initialLevel (config this) +
        \<lfloor>real_of_int (totalLinesCleared this') / real_of_int (linesPerLevel (config this))\<rfloor>"
    using ScoreManager_clearLines_step [of this count] Cons.prems by auto
  obtain states where rest:
    "clearLinesCalls this' counts = Some states" "length states = length counts"
    "\<forall>i<length counts.
              config (states ! i) = config this' \<and>
              score ((this' # states) ! i) \<le> score (states ! i) \<and>
              totalLinesCleared (states ! i) = totalLinesCleared ((this' # states) ! i) + counts ! i \<and>
              totalLinesCleared ((this' # states) ! i) \<le> totalLinesCleared (states ! i) \<and>
              level ((this' # states) ! i) \<le> level (states ! i) \<and>
              level (states ! i) = initialLevel (config this') +
                \<lfloor>real_of_int (totalLinesCleared (states ! i)) /
                 real_of_int (linesPerLevel (config this'))\<rfloor>"
    using Cons.IH [of this'] Cons.prems step(2,7) by auto
  have run: "clearLinesCalls this (count # counts) = Some (this' # states)"
    using step(1) rest(1) by simp
  have each: "config ((this' # states) ! i) = config this \<and>
              score ((this # this' # states) ! i) \<le> score ((this' # states) ! i) \<and>
              totalLinesCleared ((this' # states) ! i) =
                totalLinesCleared ((this # this' # states) ! i) + (count # counts) ! i \<and>
              totalLinesCleared ((this # this' # states) ! i) \<le> totalLinesCleared ((this' # states) ! i) \<and>
              level ((this # this' # states) ! i) \<le> level ((this' # states) ! i) \<and>
              level ((this' # states) ! i) = initialLevel (config this) +
                \<lfloor>real_of_int (totalLinesCleared ((this' # states) ! i)) /
                 real_of_int (linesPerLevel (config this))\<rfloor>"
    if "i < length (count # counts)" for i
  proof (cases i)
    case 0
    then show ?thesis using step by simp
  next
    case (Suc j)
    then have "j < length counts" using that by simp
    then have r: "config (states ! j) = config this' \<and>
              score ((this' # states) ! j) \<le> score (states ! j) \<and>
              totalLinesCleared (states ! j) = totalLinesCleared ((this' # states) ! j) + counts ! j \<and>
              totalLinesCleared ((this' # states) ! j) \<le> totalLinesCleared (states ! j) \<and>
              level ((this' # states) ! j) \<le> level (states ! j) \<and>
              level (states ! j) = initialLevel (config this') +
                \<lfloor>real_of_int (totalLinesCleared (states ! j)) /
                 real_of_int (linesPerLevel (config this'))\<rfloor>"
      using rest(3) by blast
    show ?thesis
      using r [unfolded step(2)] unfolding Suc nth_Cons_Suc .
  qed
  show ?case
  proof (rule exI [of _ "this' # states"], intro conjI)
    show "clearLinesCalls this (count # counts) = Some (this' # states)"
      by (rule run)
    show "length (this' # states) = length (count # counts)"
      using rest(2) by simp
    show "\<forall>i<length (count # counts).
              config ((this' # states) ! i) = config this \<and>
              score ((this # this' # states) ! i) \<le> score ((this' # states) ! i) \<and>
              totalLinesCleared ((this' # states) ! i) =
                totalLinesCleared ((this # this' # states) ! i) + (count # counts) ! i \<and>
              totalLinesCleared ((this # this' # states) ! i) \<le> totalLinesCleared ((this' # states) ! i) \<and>
              level ((this # this' # states) ! i) \<le> level ((this' # states) ! i) \<and>
              level ((this' # states) ! i) = initialLevel (config this) +
                \<lfloor>real_of_int (totalLinesCleared ((this' # states) ! i)) /
                 real_of_int (linesPerLevel (config this))\<rfloor>"
      using each by blast
  qed
qed

subsection \<open>The drop interval\<close>





















section \<open>Claims about the score manager\<close>




text \<open>
  C6, as the code has it. For every configuration whose score table holds no negative
  bonus and whose \<^verbatim>\<open>linesPerLevel\<close> is positive, and every sequence of \<^verbatim>\<open>clearLines(count)\<close>
  calls with non-negative counts on a new manager: every call returns, and after each
  call the score, the total of cleared lines and the level are not below their values
  before the call, the total has grown by the count, and the level equals
  \<open>initialLevel + floor(totalLinesCleared / linesPerLevel)\<close>.
\<close>

theorem ScoreManager_clearLines_monotone:
  assumes "\<forall>c bonus. scoreTable cfg c = Some bonus \<longrightarrow> 0 \<le> bonus"
    and "0 < linesPerLevel cfg"
    and "\<forall>count\<in>set counts. 0 \<le> count"
  shows "\<exists>states. clearLinesCalls (newScoreManager cfg) counts = Some states \<and>
           length states = length counts \<and>
           (\<forall>i<length counts.
              score ((newScoreManager cfg # states) ! i) \<le> score (states ! i) \<and>
              totalLinesCleared (states ! i) =
                totalLinesCleared ((newScoreManager cfg # states) ! i) + counts ! i \<and>
              totalLinesCleared ((newScoreManager cfg # states) ! i) \<le> totalLinesCleared (states ! i) \<and>
              level ((newScoreManager cfg # states) ! i) \<le> level (states ! i) \<and>
              level (states ! i) = initialLevel cfg +
                \<lfloor>real_of_int (totalLinesCleared (states ! i)) / real_of_int (linesPerLevel cfg)\<rfloor>)"
proof -
  have c: "config (newScoreManager cfg) = cfg"
    by (simp add: newScoreManager_def)
  have inv: "level (newScoreManager cfg) = initialLevel (config (newScoreManager cfg)) +
                \<lfloor>real_of_int (totalLinesCleared (newScoreManager cfg)) /
                 real_of_int (linesPerLevel (config (newScoreManager cfg)))\<rfloor>"
    by (simp add: newScoreManager_def)
  show ?thesis
    using clearLinesCalls_trace [of "newScoreManager cfg" counts, unfolded c, OF assms inv [unfolded c]]
    by blast
qed

theorem ScoreManager_clearLines_monotone_witness:
  "\<not> (\<exists>c bonus. map_of [(1, 100), (2, 300), (3, 500), (4, 800)] c = Some bonus \<and> bonus < (0::int)) \<and>
   (\<exists>states. clearLinesCalls (newScoreManager
         \<lparr>initialScore = 0, scoreTable = map_of [(1, 100), (2, 300), (3, 500), (4, 800)],
          initialLevel = 1, linesPerLevel = 10, baseDropInterval = 1000\<rparr>) [4, 0, 4, 3] = Some states \<and>
      length states = 4 \<and>
      map (\<lambda>s. (score s, totalLinesCleared s, level s)) states =
        [(800, 4, 1), (800, 4, 1), (1600, 8, 1), (2100, 11, 2)])"
proof -
  let ?cfg = "\<lparr>initialScore = 0, scoreTable = map_of [(1, 100), (2, 300), (3, 500), (4, 800)],
          initialLevel = 1, linesPerLevel = 10, baseDropInterval = 1000\<rparr>"
  have t: "\<forall>c bonus. scoreTable ?cfg c = Some bonus \<longrightarrow> 0 \<le> bonus"
    by (auto split: if_splits)
  have l: "0 < linesPerLevel ?cfg"
    by simp
  have n: "\<forall>count\<in>set [4, 0, 4, 3]. (0::int) \<le> count"
    by simp
  obtain states where s: "clearLinesCalls (newScoreManager ?cfg) [4, 0, 4, 3] = Some states"
    "length states = length [4, 0, 4, 3 :: int]"
    using ScoreManager_clearLines_monotone [OF t l n] by blast
  have v: "map_option (map (\<lambda>s. (score s, totalLinesCleared s, level s)))
             (clearLinesCalls (newScoreManager ?cfg) [4, 0, 4, 3]) =
           Some [(800, 4, 1), (800, 4, 1), (1600, 8, 1), (2100, 11, 2)]"
    by (simp add: ScoreManager_clearLines_def newScoreManager_def Let_def)
  have "map (\<lambda>s. (score s, totalLinesCleared s, level s)) states =
        [(800, 4, 1), (800, 4, 1), (1600, 8, 1), (2100, 11, 2)]"
    using v unfolding s(1) by simp
  moreover have "\<not> (\<exists>c bonus. map_of [(1, 100), (2, 300), (3, 500), (4, 800)] c = Some bonus \<and> bonus < (0::int))"
    by (auto split: if_splits)
  ultimately show ?thesis
    using s by auto
qed

text \<open>
  The claim as the specification states it fails for configurations it does not
  exclude: with a negative bonus in the score table the score decreases, and with a
  negative \<^verbatim>\<open>linesPerLevel\<close> the level decreases.
\<close>

theorem ScoreManager_clearLines_counterexample:
  "score (newScoreManager
      \<lparr>initialScore = 0, scoreTable = map_of [(1, - 100)],
       initialLevel = 1, linesPerLevel = 10, baseDropInterval = 1000\<rparr>) = 0 \<and>
   map_option score (ScoreManager_clearLines (newScoreManager
      \<lparr>initialScore = 0, scoreTable = map_of [(1, - 100)],
       initialLevel = 1, linesPerLevel = 10, baseDropInterval = 1000\<rparr>) 1) = Some (- 100) \<and>
   level (newScoreManager
      \<lparr>initialScore = 0, scoreTable = map_of [(1, 100)],
       initialLevel = 1, linesPerLevel = - 10, baseDropInterval = 1000\<rparr>) = 1 \<and>
   map_option level (ScoreManager_clearLines (newScoreManager
      \<lparr>initialScore = 0, scoreTable = map_of [(1, 100)],
       initialLevel = 1, linesPerLevel = - 10, baseDropInterval = 1000\<rparr>) 10) = Some 0"
proof -
  have f: "\<lfloor>- 1 :: real\<rfloor> = - 1"
    using floor_of_int [of "- 1", where ?'a = real] by simp
  show ?thesis
    by (simp add: ScoreManager_clearLines_def newScoreManager_def Let_def f)
qed

section \<open>Properties of the catalog\<close>

lemma allocRows_eq:
  "allocRows h rows = ([length h..<length h + length rows], h @ map NumberArray rows)"
proof (induction rows arbitrary: h)
  case Nil
  show ?case by simp
next
  case (Cons row rows)
  have e: "[length h..<length h + length (row # rows)] =
           length h # [length (h @ [NumberArray row])..<length (h @ [NumberArray row]) + length rows]"
    by (simp add: upt_conv_Cons del: upt_Suc)
  show ?case
    unfolding e by (simp add: alloc_def Cons.IH del: upt_Suc)
qed

lemma allocShape_eq:
  "allocShape h shape =
     (length h + length shape,
      h @ map NumberArray shape @ [RefArray [length h..<length h + length shape]])"
  by (simp add: allocShape_def allocRows_eq alloc_def)

lemma moduleInit_eq:
  "moduleInit =
     (35,
      map NumberArray I_PIECE @ [RefArray [0, 1, 2, 3]] @
      map NumberArray O_PIECE @ [RefArray [5, 6, 7, 8]] @
      map NumberArray T_PIECE @ [RefArray [10, 11, 12, 13]] @
      map NumberArray S_PIECE @ [RefArray [15, 16, 17, 18]] @
      map NumberArray Z_PIECE @ [RefArray [20, 21, 22, 23]] @
      map NumberArray J_PIECE @ [RefArray [25, 26, 27, 28]] @
      map NumberArray L_PIECE @ [RefArray [30, 31, 32, 33]] @
      [RefArray [4, 9, 14, 19, 24, 29, 34]])"
proof -
  have len: "length I_PIECE = 4" "length O_PIECE = 4" "length T_PIECE = 4" "length S_PIECE = 4"
    "length Z_PIECE = 4" "length J_PIECE = 4" "length L_PIECE = 4"
    by (simp_all add: I_PIECE_def O_PIECE_def T_PIECE_def S_PIECE_def Z_PIECE_def J_PIECE_def
        L_PIECE_def)
  have upt: "[0..<4] = [0, 1, 2, 3]" "[5..<9] = [5, 6, 7, 8]" "[10..<14] = [10, 11, 12, 13]"
    "[15..<19] = [15, 16, 17, 18]" "[20..<24] = [20, 21, 22, 23]" "[25..<29] = [25, 26, 27, 28]"
    "[30..<34] = [30, 31, 32, 33::nat]"
    by (simp_all add: upt_rec)
  show ?thesis
    by (simp add: moduleInit_def TETROMINOS_def allocShape_eq alloc_def len upt)
qed


lemma moduleHeap_eq:
  "moduleHeap =
     [NumberArray [Some 0, Some 0, Some 0, Some 0], NumberArray [Some 1, Some 1, Some 1, Some 1],
      NumberArray [Some 0, Some 0, Some 0, Some 0], NumberArray [Some 0, Some 0, Some 0, Some 0],
      RefArray [0, 1, 2, 3],
      NumberArray [Some 0, Some 0, Some 0, Some 0], NumberArray [Some 0, Some 2, Some 2, Some 0],
      NumberArray [Some 0, Some 2, Some 2, Some 0], NumberArray [Some 0, Some 0, Some 0, Some 0],
      RefArray [5, 6, 7, 8],
      NumberArray [Some 0, Some 0, Some 0, Some 0], NumberArray [Some 0, Some 3, Some 0, Some 0],
      NumberArray [Some 3, Some 3, Some 3, Some 0], NumberArray [Some 0, Some 0, Some 0, Some 0],
      RefArray [10, 11, 12, 13],
      NumberArray [Some 0, Some 0, Some 0, Some 0], NumberArray [Some 0, Some 4, Some 4, Some 0],
      NumberArray [Some 4, Some 4, Some 0, Some 0], NumberArray [Some 0, Some 0, Some 0, Some 0],
      RefArray [15, 16, 17, 18],
      NumberArray [Some 0, Some 0, Some 0, Some 0], NumberArray [Some 5, Some 5, Some 0, Some 0],
      NumberArray [Some 0, Some 5, Some 5, Some 0], NumberArray [Some 0, Some 0, Some 0, Some 0],
      RefArray [20, 21, 22, 23],
      NumberArray [Some 0, Some 0, Some 0, Some 0], NumberArray [Some 6, Some 0, Some 0, Some 0],
      NumberArray [Some 6, Some 6, Some 6, Some 0], NumberArray [Some 0, Some 0, Some 0, Some 0],
      RefArray [25, 26, 27, 28],
      NumberArray [Some 0, Some 0, Some 0, Some 0], NumberArray [Some 0, Some 0, Some 7, Some 0],
      NumberArray [Some 7, Some 7, Some 7, Some 0], NumberArray [Some 0, Some 0, Some 0, Some 0],
      RefArray [30, 31, 32, 33],
      RefArray [4, 9, 14, 19, 24, 29, 34]]"
  by (simp add: moduleHeap_def moduleInit_eq I_PIECE_def O_PIECE_def T_PIECE_def S_PIECE_def
      Z_PIECE_def J_PIECE_def L_PIECE_def)

lemma moduleHeap_length: "length moduleHeap = 36"
  by (simp add: moduleHeap_eq)

lemma TETROMINOS_ref_eq: "TETROMINOS_ref = 35"
  by (simp add: TETROMINOS_ref_def moduleInit_eq)

lemma moduleHeap_refs: "refsOf moduleHeap TETROMINOS_ref = [4, 9, 14, 19, 24, 29, 34]"
  by (simp add: TETROMINOS_ref_eq refsOf_def moduleHeap_eq)

lemma moduleHeap_rows:
  "map (refsOf moduleHeap) [4, 9, 14, 19, 24, 29, 34] =
     [[0, 1, 2, 3], [5, 6, 7, 8], [10, 11, 12, 13], [15, 16, 17, 18], [20, 21, 22, 23],
      [25, 26, 27, 28], [30, 31, 32, 33]]"
  by (simp add: refsOf_def moduleHeap_eq)

lemma moduleHeap_shapes: "map (shapeAt moduleHeap) [4, 9, 14, 19, 24, 29, 34] = TETROMINOS"
proof -
  have "map (shapeAt moduleHeap) [4, 9, 14, 19, 24, 29, 34] =
        map (map (cellsOf moduleHeap)) (map (refsOf moduleHeap) [4, 9, 14, 19, 24, 29, 34])"
    by (simp add: shapeAt_def)
  also have "\<dots> = TETROMINOS"
    unfolding moduleHeap_rows
    by (simp add: cellsOf_def moduleHeap_eq TETROMINOS_def I_PIECE_def O_PIECE_def T_PIECE_def
        S_PIECE_def Z_PIECE_def J_PIECE_def L_PIECE_def)
  finally show ?thesis .
qed

lemma hasCatalog_moduleHeap: "hasCatalog moduleHeap"
  by (simp add: hasCatalog_def)

lemma hasCatalog_length:
  assumes "hasCatalog h"
  shows "length moduleHeap \<le> length h"
proof -
  have "length (take (length moduleHeap) h) = length moduleHeap"
    using assms by (simp only: hasCatalog_def)
  then show ?thesis by simp
qed

lemma hasCatalog_nth:
  assumes "hasCatalog h" "a < length moduleHeap"
  shows "h ! a = moduleHeap ! a"
proof -
  have "take (length moduleHeap) h ! a = h ! a"
    using assms(2) by simp
  then show ?thesis
    using assms(1) by (simp only: hasCatalog_def)
qed

lemma hasCatalog_refsOf:
  assumes "hasCatalog h" "a < length moduleHeap"
  shows "refsOf h a = refsOf moduleHeap a"
  using hasCatalog_length [OF assms(1)] hasCatalog_nth [OF assms] assms(2)
  by (simp add: refsOf_def)

lemma hasCatalog_cellsOf:
  assumes "hasCatalog h" "a < length moduleHeap"
  shows "cellsOf h a = cellsOf moduleHeap a"
  using hasCatalog_length [OF assms(1)] hasCatalog_nth [OF assms] assms(2)
  by (simp add: cellsOf_def)

lemma moduleHeap_row_bound:
  assumes "s \<in> set [4, 9, 14, 19, 24, 29, 34]" "r \<in> set (refsOf moduleHeap s)"
  shows "r < length moduleHeap"
proof -
  have "refsOf moduleHeap s \<in> refsOf moduleHeap ` set [4, 9, 14, 19, 24, 29, 34]"
    using assms(1) by (rule imageI)
  then have "refsOf moduleHeap s \<in> set (map (refsOf moduleHeap) [4, 9, 14, 19, 24, 29, 34])"
    by (simp only: set_map)
  then have "refsOf moduleHeap s \<in> set [[0, 1, 2, 3], [5, 6, 7, 8], [10, 11, 12, 13],
      [15, 16, 17, 18], [20, 21, 22, 23], [25, 26, 27, 28], [30, 31, 32, 33::nat]]"
    unfolding moduleHeap_rows .
  then show ?thesis
    using assms(2) by (auto simp: moduleHeap_length)
qed

lemma hasCatalog_shapeAt:
  assumes "hasCatalog h" "s \<in> set [4, 9, 14, 19, 24, 29, 34]"
  shows "shapeAt h s = shapeAt moduleHeap s"
proof -
  have s: "s < length moduleHeap"
    using assms(2) by (auto simp: moduleHeap_length)
  have r: "refsOf h s = refsOf moduleHeap s"
    using assms(1) s by (rule hasCatalog_refsOf)
  have "map (cellsOf h) (refsOf moduleHeap s) = map (cellsOf moduleHeap) (refsOf moduleHeap s)"
    by (rule map_cong [OF refl]) (simp add: hasCatalog_cellsOf [OF assms(1)] moduleHeap_row_bound [OF assms(2)])
  then show ?thesis
    by (simp add: shapeAt_def r)
qed

lemma catalog_read:
  assumes "hasCatalog h"
  shows "refsOf h TETROMINOS_ref = [4, 9, 14, 19, 24, 29, 34]"
    and "map (shapeAt h) (refsOf h TETROMINOS_ref) = TETROMINOS"
proof -
  have "TETROMINOS_ref < length moduleHeap"
    by (simp add: TETROMINOS_ref_eq moduleHeap_length)
  then show refs: "refsOf h TETROMINOS_ref = [4, 9, 14, 19, 24, 29, 34]"
    using hasCatalog_refsOf [OF assms] moduleHeap_refs by simp
  have "map (shapeAt h) [4, 9, 14, 19, 24, 29, 34] = map (shapeAt moduleHeap) [4, 9, 14, 19, 24, 29, 34]"
    by (rule map_cong [OF refl]) (rule hasCatalog_shapeAt [OF assms])
  then show "map (shapeAt h) (refsOf h TETROMINOS_ref) = TETROMINOS"
    unfolding refs moduleHeap_shapes .
qed

lemma cellsOf_append: "a < length h \<Longrightarrow> cellsOf (h @ h2) a = cellsOf h a"
  by (simp add: cellsOf_def nth_append)

lemma copyRows_eq:
  assumes "\<forall>r\<in>set rows. r < length h"
  shows "copyRows h rows =
           ([length h..<length h + length rows], h @ map (\<lambda>r. NumberArray (cellsOf h r)) rows)"
  using assms
proof (induction rows arbitrary: h)
  case Nil
  show ?case by simp
next
  case (Cons row rows)
  let ?h1 = "h @ [NumberArray (cellsOf h row)]"
  have e: "[length h..<length h + length (row # rows)] =
           length h # [length ?h1..<length ?h1 + length rows]"
    by (simp add: upt_conv_Cons del: upt_Suc)
  have IH: "copyRows ?h1 rows =
           ([length ?h1..<length ?h1 + length rows], ?h1 @ map (\<lambda>r. NumberArray (cellsOf ?h1 r)) rows)"
    by (rule Cons.IH) (use Cons.prems in auto)
  have "map (\<lambda>r. NumberArray (cellsOf ?h1 r)) rows = map (\<lambda>r. NumberArray (cellsOf h r)) rows"
    by (rule map_cong [OF refl]) (use Cons.prems in \<open>simp add: cellsOf_append\<close>)
  then show ?case
    unfolding e by (simp add: alloc_def IH del: upt_Suc)
qed

lemma getTetrominoByIndex_invalid:
  assumes "hasCatalog h" "index < 0 \<or> 6 < index"
  shows "getTetrominoByIndex h index = Inl (InvalidTetrominoIndex index)"
  using assms(2) by (auto simp: getTetrominoByIndex_def catalog_read(1) [OF assms(1)])

lemma getTetrominoByIndex_copy:
  assumes cat: "hasCatalog h" and idx: "0 \<le> index" "index \<le> 6"
  shows "\<exists>a h'. getTetrominoByIndex h index = Inr (a, h') \<and>
           shapeAt h' a = TETROMINOS ! nat index \<and>
           take (length h) h' = h \<and>
           length h \<le> a \<and> (\<forall>r\<in>set (refsOf h' a). length h \<le> r)"
proof -
  let ?ts = "[4, 9, 14, 19, 24, 29, 34] :: nat list"
  define s where "s = ?ts ! nat index"
  have i: "nat index < length ?ts"
    using idx by simp
  then have sin: "s \<in> set ?ts"
    unfolding s_def by (rule nth_mem)
  define rows where "rows = refsOf h s"
  have rows_m: "rows = refsOf moduleHeap s"
    unfolding rows_def using sin by (intro hasCatalog_refsOf [OF cat]) (auto simp: moduleHeap_length)
  have rb: "\<forall>r\<in>set rows. r < length h"
    using moduleHeap_row_bound [OF sin] hasCatalog_length [OF cat] unfolding rows_m by fastforce
  let ?copies = "[length h..<length h + length rows]"
  let ?h1 = "h @ map (\<lambda>r. NumberArray (cellsOf h r)) rows"
  let ?a = "length ?h1"
  let ?h' = "?h1 @ [RefArray ?copies]"
  have res: "getTetrominoByIndex h index = Inr (?a, ?h')"
    using idx copyRows_eq [OF rb]
    by (simp add: getTetrominoByIndex_def catalog_read(1) [OF cat] Let_def alloc_def
        rows_def s_def del: upt_Suc)
  have refs: "refsOf ?h' ?a = ?copies"
    by (simp add: refsOf_def nth_append del: upt_Suc)
  have cells: "map (cellsOf ?h') ?copies = map (cellsOf h) rows"
  proof (rule nth_equalityI)
    show "length (map (cellsOf ?h') ?copies) = length (map (cellsOf h) rows)"
      by simp
  next
    fix k assume "k < length (map (cellsOf ?h') ?copies)"
    then have k: "k < length rows" by simp
    then have "cellsOf ?h' (length h + k) = cellsOf h (rows ! k)"
      by (simp add: cellsOf_def nth_append)
    then show "map (cellsOf ?h') ?copies ! k = map (cellsOf h) rows ! k"
      using k by (simp del: upt_Suc)
  qed
  have "shapeAt ?h' ?a = map (cellsOf h) rows"
    by (simp only: shapeAt_def refs cells)
  also have "\<dots> = shapeAt h s"
    by (simp only: shapeAt_def rows_def)
  also have "\<dots> = shapeAt moduleHeap s"
    using cat sin by (rule hasCatalog_shapeAt)
  also have "\<dots> = map (shapeAt moduleHeap) ?ts ! nat index"
    unfolding s_def using i by (simp only: nth_map)
  also have "\<dots> = TETROMINOS ! nat index"
    unfolding moduleHeap_shapes ..
  finally have shape: "shapeAt ?h' ?a = TETROMINOS ! nat index" .
  have "take (length h) ?h' = h"
    by simp
  moreover have "length h \<le> ?a"
    by simp
  moreover have "\<forall>r\<in>set (refsOf ?h' ?a). length h \<le> r"
    unfolding refs by simp
  ultimately show ?thesis
    using res shape by blast
qed

lemma hasCatalog_update:
  assumes "hasCatalog h'" "length moduleHeap \<le> p"
  shows "hasCatalog (h'[p := ob])"
  using assms by (simp add: hasCatalog_def)

section \<open>Claims about the catalog\<close>

text \<open>
  C9. In every store that holds the catalog, for every integer index:
  \<^verbatim>\<open>getTetrominoByIndex\<close> throws its error, which carries the index, when the index is
  below 0 or above 6, and only then. For an index from 0 to 6 it returns a new array
  whose rows are new arrays, holding the canonical shape of that kind; the call changes
  no object that existed before, and replacing the returned array or any of its rows by
  anything whatsoever leaves the catalog in the store, so that the seven shapes read from
  \<^verbatim>\<open>TETROMINOS\<close> are still the canonical ones.
\<close>

theorem getTetrominoByIndex_spec:
  assumes "hasCatalog h"
  shows "(index < 0 \<or> 6 < index \<longrightarrow>
            getTetrominoByIndex h index = Inl (InvalidTetrominoIndex index)) \<and>
         (0 \<le> index \<and> index \<le> 6 \<longrightarrow>
            (\<exists>a h'. getTetrominoByIndex h index = Inr (a, h') \<and>
                shapeAt h' a = TETROMINOS ! nat index \<and>
                take (length h) h' = h \<and>
                length h \<le> a \<and> (\<forall>r\<in>set (refsOf h' a). length h \<le> r) \<and>
                (\<forall>p ob. p = a \<or> p \<in> set (refsOf h' a) \<longrightarrow>
                   hasCatalog (h'[p := ob]) \<and>
                   map (shapeAt (h'[p := ob])) (refsOf (h'[p := ob]) TETROMINOS_ref) =
                     TETROMINOS)))"
proof (intro conjI impI)
  assume "index < 0 \<or> 6 < index"
  with assms show "getTetrominoByIndex h index = Inl (InvalidTetrominoIndex index)"
    by (rule getTetrominoByIndex_invalid)
next
  assume idx: "0 \<le> index \<and> index \<le> 6"
  then obtain a h' where r:
    "getTetrominoByIndex h index = Inr (a, h')"
    "shapeAt h' a = TETROMINOS ! nat index"
    "take (length h) h' = h"
    "length h \<le> a" "\<forall>r\<in>set (refsOf h' a). length h \<le> r"
    using getTetrominoByIndex_copy [OF assms, of index] by blast
  have len: "length moduleHeap \<le> length h"
    using assms by (rule hasCatalog_length)
  have "take (length moduleHeap) h' = take (length moduleHeap) (take (length h) h')"
    using len by (simp add: min_def)
  then have cat': "hasCatalog h'"
    using assms unfolding r(3) by (simp add: hasCatalog_def)
  have safe: "hasCatalog (h'[p := ob]) \<and>
              map (shapeAt (h'[p := ob])) (refsOf (h'[p := ob]) TETROMINOS_ref) = TETROMINOS"
    if "p = a \<or> p \<in> set (refsOf h' a)" for p ob
  proof -
    have "length moduleHeap \<le> p"
      using that r(4,5) len by auto
    with cat' have "hasCatalog (h'[p := ob])"
      by (rule hasCatalog_update)
    then show ?thesis
      using catalog_read(2) by blast
  qed
  show "\<exists>a h'. getTetrominoByIndex h index = Inr (a, h') \<and>
                shapeAt h' a = TETROMINOS ! nat index \<and>
                take (length h) h' = h \<and>
                length h \<le> a \<and> (\<forall>r\<in>set (refsOf h' a). length h \<le> r) \<and>
                (\<forall>p ob. p = a \<or> p \<in> set (refsOf h' a) \<longrightarrow>
                   hasCatalog (h'[p := ob]) \<and>
                   map (shapeAt (h'[p := ob])) (refsOf (h'[p := ob]) TETROMINOS_ref) =
                     TETROMINOS)"
    using r safe by blast
qed

theorem getTetrominoByIndex_spec_witness:
  "hasCatalog moduleHeap \<and>
   getTetrominoByIndex moduleHeap 7 = Inl (InvalidTetrominoIndex 7) \<and>
   getTetrominoByIndex moduleHeap (- 1) = Inl (InvalidTetrominoIndex (- 1)) \<and>
   (\<exists>a h'. getTetrominoByIndex moduleHeap 2 = Inr (a, h') \<and>
       shapeAt h' a = T_PIECE \<and>
       length moduleHeap \<le> a \<and>
       hasCatalog (h'[a := RefArray []]) \<and>
       map (shapeAt (h'[a := RefArray []])) (refsOf (h'[a := RefArray []]) TETROMINOS_ref) =
         TETROMINOS)"
proof -
  have t: "TETROMINOS ! nat 2 = T_PIECE"
    by (simp add: TETROMINOS_def)
  have a: "getTetrominoByIndex moduleHeap 7 = Inl (InvalidTetrominoIndex 7)"
    using getTetrominoByIndex_spec [OF hasCatalog_moduleHeap, of 7] by simp
  have b: "getTetrominoByIndex moduleHeap (- 1) = Inl (InvalidTetrominoIndex (- 1))"
    using getTetrominoByIndex_spec [OF hasCatalog_moduleHeap, of "- 1"] by simp
  have c: "\<exists>a h'. getTetrominoByIndex moduleHeap 2 = Inr (a, h') \<and>
       shapeAt h' a = T_PIECE \<and>
       length moduleHeap \<le> a \<and>
       hasCatalog (h'[a := RefArray []]) \<and>
       map (shapeAt (h'[a := RefArray []])) (refsOf (h'[a := RefArray []]) TETROMINOS_ref) =
         TETROMINOS"
    using getTetrominoByIndex_spec [OF hasCatalog_moduleHeap, of 2] unfolding t by fastforce
  show ?thesis
    using hasCatalog_moduleHeap a b c by blast
qed

end
